theory Spec2Isabelle
  imports Complex_Main "HOL-Library.Multiset" "HOL-Library.Char_ord" "HOL-Library.List_Lexorder"
begin

section \<open>The ABS snapshot store of etcd-backup-restore\<close>

text \<open>
  A shallow embedding of \<^verbatim>\<open>pkg/snapstore/abs_snapstore.go\<close>. Go strings are
  \<open>string\<close> (byte lists), Go's \<open>error\<close> results are sums with \<open>Inl\<close> for the
  error, the process environment and the file system are an explicit record that the
  credential functions read, and the storage backend is a record of responses together
  with the list of calls made to it.
\<close>

subsection \<open>Errors\<close>

text \<open>
  One constructor for each place where the source builds an error with \<^verbatim>\<open>fmt.Errorf\<close>,
  carrying the values it formats; errors of the operating system, of the JSON decoder and
  of the Azure SDK are opaque values.
\<close>

datatype error =
    OSError string
  | UnmarshalError
  | SDKError string
  | InvalidEmulatorFlag string
  | EndpointNotSet
  | JSONFileError string
  | FindJSONError string error
  | JSONInDirError string error
  | CredDirError string
  | UnableToGetCredentials
  | ConfigEmpty
  | ModTimeFailed error
  | DirTimestampFailed string error
  | JSONFileInfoFailed string error
  | NoCredentialEnvSet
  | CreateTempFailed error
  | CopyFailed error
  | ChunkUploadFailed int int "error option"
  | BlocklistFailed error
  | StageFailed int string error
  | DownloadFailed string error
  | DeleteFailed string error
  | ListFailed error

subsection \<open>Go standard library: strings and paths\<close>

text \<open>\<^verbatim>\<open>strings.Split(s, "/")\<close>: the pieces between the separators; one piece more than
  there are separators, so the result is never empty.\<close>

fun strings_Split :: "char \<Rightarrow> string \<Rightarrow> string list" where
  "strings_Split sep [] = [[]]"
| "strings_Split sep (c # cs) =
     (if c = sep then [] # strings_Split sep cs
      else (case strings_Split sep cs of
              [] \<Rightarrow> [[c]]
            | t # ts \<Rightarrow> (c # t) # ts))"

fun strings_Join :: "string list \<Rightarrow> string \<Rightarrow> string" where
  "strings_Join [] sep = []"
| "strings_Join [x] sep = x"
| "strings_Join (x # y # ys) sep = x @ sep @ strings_Join (y # ys) sep"

definition strings_HasPrefix :: "string \<Rightarrow> string \<Rightarrow> bool" where
  "strings_HasPrefix s p = (take (length p) s = p)"

fun strings_Contains :: "string \<Rightarrow> string \<Rightarrow> bool" where
  "strings_Contains [] sub = (sub = [])"
| "strings_Contains (c # cs) sub =
     (strings_HasPrefix (c # cs) sub \<or> strings_Contains cs sub)"

definition strings_HasSuffix :: "string \<Rightarrow> string \<Rightarrow> bool" where
  "strings_HasSuffix s p = (length p \<le> length s \<and> drop (length s - length p) s = p)"

definition strings_TrimPrefix :: "string \<Rightarrow> string \<Rightarrow> string" where
  "strings_TrimPrefix s p = (if strings_HasPrefix s p then drop (length p) s else s)"

text \<open>
  \<^verbatim>\<open>path.Clean\<close>, by path elements: empty elements and \<^verbatim>\<open>.\<close> are dropped, \<^verbatim>\<open>..\<close>
  removes the element before it when there is one, is dropped at the root and is kept
  at the start of a relative path; the empty result is \<^verbatim>\<open>.\<close>. The stack holds the
  elements kept so far, last one first.
\<close>

fun clean_elems :: "bool \<Rightarrow> string list \<Rightarrow> string list \<Rightarrow> string list" where
  "clean_elems rooted stack [] = rev stack"
| "clean_elems rooted stack (e # es) =
     (if e = [] \<or> e = ''.'' then clean_elems rooted stack es
      else if e = ''..'' then
        (case stack of
           t # ts \<Rightarrow>
             (if t \<noteq> ''..'' then clean_elems rooted ts es
              else clean_elems rooted (e # stack) es)
         | [] \<Rightarrow>
             (if rooted then clean_elems rooted stack es
              else clean_elems rooted (e # stack) es))
      else clean_elems rooted (e # stack) es)"

definition path_Clean :: "string \<Rightarrow> string" where
  "path_Clean p =
     (if p = [] then ''.''
      else
        (let rooted = (hd p = CHR ''/'');
             out = (if rooted then ''/'' else []) @
                   strings_Join (clean_elems rooted [] (strings_Split CHR ''/'' p)) ''/''
         in if out = [] then ''.'' else out))"

text \<open>\<^verbatim>\<open>path.Join\<close>: leading empty elements are skipped, the rest is joined with
  slashes and cleaned; when every element is empty the result is the empty string.\<close>

fun join_buf :: "string \<Rightarrow> string list \<Rightarrow> string" where
  "join_buf buf [] = buf"
| "join_buf buf (e # es) =
     (if buf \<noteq> [] then join_buf (buf @ ''/'' @ e) es
      else if e \<noteq> [] then join_buf e es
      else join_buf buf es)"

definition path_Join :: "string list \<Rightarrow> string" where
  "path_Join elem = (if concat elem = [] then [] else path_Clean (join_buf [] elem))"

text \<open>\<^verbatim>\<open>strconv.ParseBool\<close>: the twelve accepted spellings; \<open>None\<close> is its syntax error.\<close>

definition strconv_ParseBool :: "string \<Rightarrow> bool option" where
  "strconv_ParseBool str =
     (if str \<in> set [''1'', ''t'', ''T'', ''true'', ''TRUE'', ''True''] then Some True
      else if str \<in> set [''0'', ''f'', ''F'', ''false'', ''FALSE'', ''False''] then Some False
      else None)"

subsection \<open>The process environment and the file system\<close>

text \<open>
  What \<^verbatim>\<open>os.LookupEnv\<close>, \<^verbatim>\<open>os.ReadFile\<close>, \<^verbatim>\<open>os.ReadDir\<close> and \<^verbatim>\<open>os.Stat\<close> answer.
  A time is a natural number, \<open>0\<close> being the zero \<^verbatim>\<open>time.Time\<close>. The JSON decoder into
  \<^verbatim>\<open>absCredentials\<close> is the standard library's and is a field of the same record.
\<close>

record absCredentials =
  BucketName :: string
  SecretKey :: string
  StorageAccount :: string

record os =
  environ :: "string \<Rightarrow> string option"
  file_data :: "string \<Rightarrow> string option"
  dir_entries :: "string \<Rightarrow> string list option"
  mod_time :: "string \<Rightarrow> nat option"
  json_Unmarshal :: "string \<Rightarrow> absCredentials option"

definition os_LookupEnv :: "os \<Rightarrow> string \<Rightarrow> string option" where
  "os_LookupEnv w name = environ w name"

definition os_ReadFile :: "os \<Rightarrow> string \<Rightarrow> error + string" where
  "os_ReadFile w name = (case file_data w name of None \<Rightarrow> Inl (OSError name) | Some d \<Rightarrow> Inr d)"

definition os_ReadDir :: "os \<Rightarrow> string \<Rightarrow> error + string list" where
  "os_ReadDir w name = (case dir_entries w name of None \<Rightarrow> Inl (OSError name) | Some es \<Rightarrow> Inr es)"

definition os_Stat_ModTime :: "os \<Rightarrow> string \<Rightarrow> error + nat" where
  "os_Stat_ModTime w name = (case mod_time w name of None \<Rightarrow> Inl (OSError name) | Some t \<Rightarrow> Inr t)"

subsection \<open>Credential resolution\<close>

definition absCredentialDirectory :: string where
  "absCredentialDirectory = ''AZURE_APPLICATION_CREDENTIALS''"

definition absCredentialJSONFile :: string where
  "absCredentialJSONFile = ''AZURE_APPLICATION_CREDENTIALS_JSON''"

definition AzuriteEndpoint :: string where
  "AzuriteEndpoint = ''AZURE_STORAGE_API_ENDPOINT''"

text \<open>The name of the emulator flag is declared outside the file; the comment above
  \<^verbatim>\<open>ConstructABSURI\<close> gives it.\<close>

definition EnvAzureEmulatorEnabled :: string where
  "EnvAzureEmulatorEnabled = ''AZURE_EMULATOR_ENABLED''"

definition absCredentialsFromJSON :: "os \<Rightarrow> string \<Rightarrow> error + absCredentials" where
  "absCredentialsFromJSON w jsonData =
     (case json_Unmarshal w jsonData of None \<Rightarrow> Inl UnmarshalError | Some c \<Rightarrow> Inr c)"

definition readABSCredentialsJSON :: "os \<Rightarrow> string \<Rightarrow> error + absCredentials" where
  "readABSCredentialsJSON w filename =
     (case os_ReadFile w filename of
        Inl err \<Rightarrow> Inl err
      | Inr jsonData \<Rightarrow> absCredentialsFromJSON w jsonData)"

definition isABSConfigEmpty :: "absCredentials \<Rightarrow> error option" where
  "isABSConfigEmpty config =
     (if length (SecretKey config) \<noteq> 0 \<and> length (StorageAccount config) \<noteq> 0 then None
      else Some ConfigEmpty)"

text \<open>The loop of \<^verbatim>\<open>readABSCredentialFiles\<close> over the directory entries.\<close>

fun readABSCredentialFiles_loop ::
  "os \<Rightarrow> string \<Rightarrow> absCredentials \<Rightarrow> string list \<Rightarrow> error + absCredentials" where
  "readABSCredentialFiles_loop w dirname absConfig [] = Inr absConfig"
| "readABSCredentialFiles_loop w dirname absConfig (file # files) =
     (if file = ''storageAccount'' then
        (case os_ReadFile w (dirname @ ''/storageAccount'') of
           Inl err \<Rightarrow> Inl err
         | Inr d \<Rightarrow> readABSCredentialFiles_loop w dirname (absConfig\<lparr>StorageAccount := d\<rparr>) files)
      else if file = ''storageKey'' then
        (case os_ReadFile w (dirname @ ''/storageKey'') of
           Inl err \<Rightarrow> Inl err
         | Inr d \<Rightarrow> readABSCredentialFiles_loop w dirname (absConfig\<lparr>SecretKey := d\<rparr>) files)
      else readABSCredentialFiles_loop w dirname absConfig files)"

definition readABSCredentialFiles :: "os \<Rightarrow> string \<Rightarrow> error + absCredentials" where
  "readABSCredentialFiles w dirname =
     (case os_ReadDir w dirname of
        Inl err \<Rightarrow> Inl err
      | Inr files \<Rightarrow>
          (case readABSCredentialFiles_loop w dirname
                  \<lparr>BucketName = [], SecretKey = [], StorageAccount = []\<rparr> files of
             Inl err \<Rightarrow> Inl err
           | Inr absConfig \<Rightarrow>
               (case isABSConfigEmpty absConfig of
                  Some err \<Rightarrow> Inl err
                | None \<Rightarrow> Inr absConfig)))"

text \<open>
  Modelled from the spec: \<^verbatim>\<open>findFileWithExtensionInDir\<close> is called by the file and
  defined elsewhere in the repository. By sections 4.2 and 7 of the specification the
  directory source is a \<^verbatim>\<open>*.json\<close> file in the directory; a directory that cannot be
  read is an error, and the absence of such a file is not: the result is then the empty
  name. A file that is found is named by its path in the directory.
\<close>

definition findFileWithExtensionInDir :: "os \<Rightarrow> string \<Rightarrow> string \<Rightarrow> error + string" where
  "findFileWithExtensionInDir w dir extension =
     (case os_ReadDir w dir of
        Inl err \<Rightarrow> Inl err
      | Inr entries \<Rightarrow>
          (case filter (\<lambda>n. strings_HasSuffix n extension) entries of
             [] \<Rightarrow> Inr []
           | n # _ \<Rightarrow> Inr (path_Join [dir, n])))"

text \<open>
  \<^verbatim>\<open>getCredentials\<close> tries three sources, each in a block of its own that returns
  or falls through. The second block is the JSON file of the credential directory:
  \<open>None\<close> is falling through to the third block.
\<close>

definition getCredentials_dirJSON :: "os \<Rightarrow> string \<Rightarrow> (error + (string \<times> string)) option" where
  "getCredentials_dirJSON w prefixString =
     (case os_LookupEnv w (prefixString @ absCredentialDirectory) of
        None \<Rightarrow> None
      | Some dir \<Rightarrow>
          (case findFileWithExtensionInDir w dir ''.json'' of
             Inl err \<Rightarrow> Some (Inl (FindJSONError dir err))
           | Inr jsonCredentialFile \<Rightarrow>
               if jsonCredentialFile \<noteq> [] then
                 (case readABSCredentialsJSON w jsonCredentialFile of
                    Inl err \<Rightarrow> Some (Inl (JSONInDirError jsonCredentialFile err))
                  | Inr credentials \<Rightarrow>
                      Some (Inr (StorageAccount credentials, SecretKey credentials)))
               else None))"

definition getCredentials_dirFiles :: "os \<Rightarrow> string \<Rightarrow> (error + (string \<times> string)) option" where
  "getCredentials_dirFiles w prefixString =
     (case os_LookupEnv w (prefixString @ absCredentialDirectory) of
        None \<Rightarrow> None
      | Some dir \<Rightarrow>
          (case readABSCredentialFiles w dir of
             Inl err \<Rightarrow> Some (Inl (CredDirError dir))
           | Inr credentials \<Rightarrow>
               Some (Inr (StorageAccount credentials, SecretKey credentials))))"

definition getCredentials :: "os \<Rightarrow> string \<Rightarrow> error + (string \<times> string)" where
  "getCredentials w prefixString =
     (case os_LookupEnv w (prefixString @ absCredentialJSONFile) of
        Some filename \<Rightarrow>
          (case readABSCredentialsJSON w filename of
             Inl err \<Rightarrow> Inl (JSONFileError filename)
           | Inr credentials \<Rightarrow> Inr (StorageAccount credentials, SecretKey credentials))
      | None \<Rightarrow>
          (case getCredentials_dirJSON w prefixString of
             Some r \<Rightarrow> r
           | None \<Rightarrow>
               (case getCredentials_dirFiles w prefixString of
                  Some r \<Rightarrow> r
                | None \<Rightarrow> Inl UnableToGetCredentials)))"

subsection \<open>Modification time of the credentials\<close>

text \<open>
  Modelled from the spec: \<^verbatim>\<open>getLatestCredentialsModifiedTime\<close> and
  \<^verbatim>\<open>getJSONCredentialModifiedTime\<close> are called by the file and defined elsewhere in
  the repository. By section 4.2 of the specification the query returns the maximum
  modification time across the files of the source; a file that cannot be examined is
  an error, and a directory without a JSON file gives the zero time, which the caller
  tests with \<^verbatim>\<open>IsZero\<close>.
\<close>

fun getLatestCredentialsModifiedTime_loop :: "os \<Rightarrow> nat \<Rightarrow> string list \<Rightarrow> error + nat" where
  "getLatestCredentialsModifiedTime_loop w latest [] = Inr latest"
| "getLatestCredentialsModifiedTime_loop w latest (f # fs) =
     (case os_Stat_ModTime w f of
        Inl err \<Rightarrow> Inl err
      | Inr t \<Rightarrow> getLatestCredentialsModifiedTime_loop w (max latest t) fs)"

definition getLatestCredentialsModifiedTime :: "os \<Rightarrow> string list \<Rightarrow> error + nat" where
  "getLatestCredentialsModifiedTime w credentialFiles =
     getLatestCredentialsModifiedTime_loop w 0 credentialFiles"

definition getJSONCredentialModifiedTime :: "os \<Rightarrow> string \<Rightarrow> error + nat" where
  "getJSONCredentialModifiedTime w dir =
     (case findFileWithExtensionInDir w dir ''.json'' of
        Inl err \<Rightarrow> Inl err
      | Inr jsonCredentialFile \<Rightarrow>
          if jsonCredentialFile \<noteq> [] then getLatestCredentialsModifiedTime w [jsonCredentialFile]
          else Inr 0)"

text \<open>The three blocks of \<^verbatim>\<open>GetABSCredentialsLastModifiedTime\<close>, in the order of the
  source; \<open>None\<close> is falling through to the next block.\<close>

definition lastModified_dirJSON :: "os \<Rightarrow> (error + nat) option" where
  "lastModified_dirJSON w =
     (case os_LookupEnv w absCredentialDirectory of
        None \<Rightarrow> None
      | Some dir \<Rightarrow>
          (case getJSONCredentialModifiedTime w dir of
             Inl err \<Rightarrow> Some (Inl (ModTimeFailed err))
           | Inr modificationTimeStamp \<Rightarrow>
               if modificationTimeStamp \<noteq> 0 then Some (Inr modificationTimeStamp) else None))"

definition lastModified_dirFiles :: "os \<Rightarrow> (error + nat) option" where
  "lastModified_dirFiles w =
     (case os_LookupEnv w absCredentialDirectory of
        None \<Rightarrow> None
      | Some dir \<Rightarrow>
          (case getLatestCredentialsModifiedTime w
                  (map (\<lambda>f. path_Join [dir, f]) [''storageKey'', ''storageAccount'']) of
             Inl err \<Rightarrow> Some (Inl (DirTimestampFailed dir err))
           | Inr absTimeStamp \<Rightarrow> Some (Inr absTimeStamp)))"

definition lastModified_jsonFile :: "os \<Rightarrow> (error + nat) option" where
  "lastModified_jsonFile w =
     (case os_LookupEnv w absCredentialJSONFile of
        None \<Rightarrow> None
      | Some filename \<Rightarrow>
          (case getLatestCredentialsModifiedTime w [filename] of
             Inl err \<Rightarrow> Some (Inl (JSONFileInfoFailed filename err))
           | Inr absTimeStamp \<Rightarrow> Some (Inr absTimeStamp)))"

definition GetABSCredentialsLastModifiedTime :: "os \<Rightarrow> error + nat" where
  "GetABSCredentialsLastModifiedTime w =
     (case lastModified_dirJSON w of
        Some r \<Rightarrow> r
      | None \<Rightarrow>
          (case lastModified_dirFiles w of
             Some r \<Rightarrow> r
           | None \<Rightarrow>
               (case lastModified_jsonFile w of
                  Some r \<Rightarrow> r
                | None \<Rightarrow> Inl NoCredentialEnvSet)))"

subsection \<open>The endpoint of the blob service\<close>

text \<open>The host name of the public service, \<^verbatim>\<open>brtypes.AzureBlobStorageHostName\<close>, is
  declared in another package and is a parameter here.\<close>

definition ConstructABSURI :: "string \<Rightarrow> os \<Rightarrow> string \<Rightarrow> error + string" where
  "ConstructABSURI hostName w accountName =
     (let defaultURL = ''https://'' @ accountName @ ''.'' @ hostName in
      case os_LookupEnv w EnvAzureEmulatorEnabled of
        None \<Rightarrow> Inr defaultURL
      | Some emulatorEnabled \<Rightarrow>
          (case strconv_ParseBool emulatorEnabled of
             None \<Rightarrow> Inl (InvalidEmulatorFlag emulatorEnabled)
           | Some isEmulator \<Rightarrow>
               if \<not> isEmulator then Inr defaultURL
               else
                 (case os_LookupEnv w AzuriteEndpoint of
                    None \<Rightarrow> Inl EndpointNotSet
                  | Some endpoint \<Rightarrow> Inr (endpoint @ ''/'' @ accountName))))"

subsection \<open>Chunk arithmetic and block identifiers\<close>

text \<open>
  Sizes, offsets and part numbers are Go's \<^verbatim>\<open>int64\<close>; they are modelled as
  unbounded integers. They are byte counts and offsets of one local temporary file, and
  the number of bytes copied is a natural number. Go's integer division truncates towards
  zero and panics on a zero divisor; the callers below test for zero before dividing.
\<close>

definition go_quo :: "int \<Rightarrow> int \<Rightarrow> int" where
  "go_quo a b = sgn a * sgn b * (\<bar>a\<bar> div \<bar>b\<bar>)"

definition go_rem :: "int \<Rightarrow> int \<Rightarrow> int" where
  "go_rem a b = a - b * go_quo a b"

text \<open>\<^verbatim>\<open>fmt.Sprintf("%010d", n)\<close>: the decimal digits, padded with zeros to ten
  characters, the sign counted and written first; longer numbers are not cut.\<close>

definition digit_char :: "nat \<Rightarrow> char" where
  "digit_char d = char_of (48 + d)"

fun decimal :: "nat \<Rightarrow> string" where
  "decimal n = (if n < 10 then [digit_char n] else decimal (n div 10) @ [digit_char (n mod 10)])"

declare decimal.simps [simp del]

definition zero_pad :: "nat \<Rightarrow> string \<Rightarrow> string" where
  "zero_pad w s = replicate (w - length s) CHR ''0'' @ s"

definition sprintf_010d :: "int \<Rightarrow> string" where
  "sprintf_010d n =
     (if n < 0 then CHR ''-'' # zero_pad 9 (decimal (nat (- n)))
      else zero_pad 10 (decimal (nat n)))"

text \<open>\<^verbatim>\<open>base64.StdEncoding.EncodeToString\<close>: three bytes give four characters of the
  standard alphabet, and the last group is padded with \<^verbatim>\<open>=\<close>.\<close>

definition base64_alphabet :: string where
  "base64_alphabet = ''ABCDEFGHIJKLMNOPQRSTUVWXYZabcdefghijklmnopqrstuvwxyz0123456789+/''"

definition base64_char :: "nat \<Rightarrow> char" where
  "base64_char i = base64_alphabet ! i"

fun base64_encode :: "nat list \<Rightarrow> string" where
  "base64_encode [] = []"
| "base64_encode [a] =
     [base64_char (a div 4), base64_char ((a mod 4) * 16), CHR ''='', CHR ''='']"
| "base64_encode [a, b] =
     [base64_char (a div 4), base64_char ((a mod 4) * 16 + b div 16),
      base64_char ((b mod 16) * 4), CHR ''='']"
| "base64_encode (a # b # c # rest) =
     [base64_char (a div 4), base64_char ((a mod 4) * 16 + b div 16),
      base64_char ((b mod 16) * 4 + c div 64), base64_char (c mod 64)] @ base64_encode rest"

definition base64_EncodeToString :: "string \<Rightarrow> string" where
  "base64_EncodeToString s = base64_encode (map of_char s)"

definition blockID :: "int \<Rightarrow> string" where
  "blockID partNumber = base64_EncodeToString (sprintf_010d partNumber)"

subsection \<open>Snapshots, the store and its backend\<close>

text \<open>The fields of \<^verbatim>\<open>brtypes.Snapshot\<close> that the file reads, the store, and the chunk
  and result types of the upload (declared elsewhere in the package, with the fields the
  file uses).\<close>

record Snapshot =
  Prefix :: string
  SnapDir :: string
  SnapName :: string

record ABSSnapStore =
  container :: string
  prefix :: string
  maxParallelChunkUploads :: nat
  minChunkSize :: int
  tempDir :: string

record chunk =
  offset :: int
  chunk_size :: int
  chunk_id :: int
  attempt :: nat

record chunkUploadResult =
  err :: "error option"
  chunk :: chunk

text \<open>
  What the package declares outside the file and the file uses: the two naming-version
  tags, the parser of object names, the prefix adaptation and the order of
  \<^verbatim>\<open>brtypes.SnapList\<close>. They are parameters of the model.
\<close>

record pkg =
  backupVersionV1 :: string
  backupVersionV2 :: string
  ParseSnapshot :: "string \<Rightarrow> error + Snapshot"
  adaptPrefix :: "Snapshot \<Rightarrow> string \<Rightarrow> string"
  Less :: "Snapshot \<Rightarrow> Snapshot \<Rightarrow> bool"

text \<open>
  The backend behind \<^verbatim>\<open>azureContainerClienter\<close> and \<^verbatim>\<open>AzureBlockBlobClienter\<close>: what
  it answers to each call, and the calls made to it, in order. A pager is the list of the
  answers of its successive \<^verbatim>\<open>NextPage\<close> calls, each an error or the blob names of the
  page; \<^verbatim>\<open>More\<close> holds while answers remain.
\<close>

datatype backend_call =
    StageBlock string string int int
  | CommitBlockList string "string list"
  | DownloadStream string
  | DeleteBlob string
  | NewListBlobsFlatPager string
  | NextPage

record backend =
  stageBlock_resp :: "string \<Rightarrow> string \<Rightarrow> error option"
  commitBlockList_resp :: "string \<Rightarrow> string list \<Rightarrow> error option"
  downloadStream_resp :: "string \<Rightarrow> error + string"
  delete_resp :: "string \<Rightarrow> error option"
  pager_pages :: "string \<Rightarrow> (error + string list) list"

text \<open>A call that returns, panics, or never returns.\<close>

datatype 'a outcome = Returns 'a | Panics | Blocks

subsection \<open>Fetch and Delete\<close>



subsection \<open>Save\<close>

text \<open>What the local file system answers during a Save: creating the temporary file,
  copying the stream into it (the number of bytes written) and \<^verbatim>\<open>file.Stat\<close>.\<close>

record save_io =
  createTemp_err :: "error option"
  copy_result :: "error + nat"
  stat_err :: "error option"

definition noOfChunks :: "int \<Rightarrow> int \<Rightarrow> int" where
  "noOfChunks fsize chunkSize =
     (let n = go_quo fsize chunkSize in
      if go_rem fsize chunkSize \<noteq> 0 then n + 1 else n)"

text \<open>The loop that sends the chunks to the workers; \<open>None\<close> when it never ends.\<close>

partial_function (option) dispatchChunks :: "int \<Rightarrow> int \<Rightarrow> int \<Rightarrow> int \<Rightarrow> chunk list option" where
  "dispatchChunks fsize chunkSize off index =
     (if off < fsize then
        Option.bind (dispatchChunks fsize chunkSize (off + chunkSize) (index + 1))
          (\<lambda>rest. Some (\<lparr>offset = off, chunk_size = chunkSize, chunk_id = index, attempt = 0\<rparr> # rest))
      else Some [])"

declare dispatchChunks.simps [code]

text \<open>The loop that rebuilds the block list, for part numbers from the given one up to
  \<^verbatim>\<open>noOfChunks\<close>.\<close>

function blockList_from :: "int \<Rightarrow> int \<Rightarrow> string list" where
  "blockList_from partNumber n =
     (if partNumber \<le> n then blockID partNumber # blockList_from (partNumber + 1) n else [])"
  by pat_completeness auto
termination
  by (relation "measure (\<lambda>(partNumber, n). nat (n + 1 - partNumber))") auto

declare blockList_from.simps [simp del]

text \<open>\<^verbatim>\<open>uploadBlock\<close>: the error it returns and the backend calls it makes.\<close>

definition uploadBlock ::
  "pkg \<Rightarrow> ABSSnapStore \<Rightarrow> backend \<Rightarrow> save_io \<Rightarrow> int \<Rightarrow> Snapshot \<Rightarrow> int \<Rightarrow> int
     \<Rightarrow> (error option \<times> backend_call list) outcome" where
  "uploadBlock k a b io fileSize snap off chunkSize =
     (case stat_err io of
        Some e \<Rightarrow> Returns (Some e, [])
      | None \<Rightarrow>
          (let sz0 = fileSize - off;
               sz = (if sz0 > chunkSize then chunkSize else sz0);
               blobName = path_Join [adaptPrefix k snap (prefix a), SnapDir snap, SnapName snap]
           in if chunkSize = 0 then Panics
              else
                (let partNumber = go_quo off chunkSize + 1;
                     bid = blockID partNumber
                 in case stageBlock_resp b blobName bid of
                      Some e \<Rightarrow>
                        Returns (Some (StageFailed off blobName e),
                                 [StageBlock blobName bid off sz])
                    | None \<Rightarrow> Returns (None, [StageBlock blobName bid off sz]))))"

text \<open>
  The workers (\<^verbatim>\<open>blockUploader\<close>) take chunks from the queue, upload each and send one
  result for it. Which chunks they upload and in which order the results arrive is decided
  by the scheduler; it is the list of chunks given here, and the theorems below range over
  all such lists. A worker whose upload panics takes the process down.
\<close>

fun blockUploader ::
  "pkg \<Rightarrow> ABSSnapStore \<Rightarrow> backend \<Rightarrow> save_io \<Rightarrow> int \<Rightarrow> Snapshot \<Rightarrow> chunk list
     \<Rightarrow> (chunkUploadResult list \<times> backend_call list) outcome" where
  "blockUploader k a b io fileSize snap [] = Returns ([], [])"
| "blockUploader k a b io fileSize snap (c # cs) =
     (case uploadBlock k a b io fileSize snap (offset c) (chunk_size c) of
        Returns (e, calls) \<Rightarrow>
          (case blockUploader k a b io fileSize snap cs of
             Returns (rs, calls') \<Rightarrow> Returns (\<lparr>err = e, chunk = c\<rparr> # rs, calls @ calls')
           | Panics \<Rightarrow> Panics
           | Blocks \<Rightarrow> Blocks)
      | Panics \<Rightarrow> Panics
      | Blocks \<Rightarrow> Blocks)"

text \<open>
  Modelled from the spec: \<^verbatim>\<open>collectChunkUploadError\<close> is called by Save and defined
  elsewhere in the repository. By section 4.4, step 4, of the specification the collector
  drains exactly \<open>N\<close> results, or fewer when it cancels: on the first error it raises the
  cancellation signal and returns that error, and the results drained after it do not
  change what it returns. With no error among \<open>N\<close> results it returns no error. The
  outer \<open>None\<close> is the collector waiting for a result that never arrives. It is handed the
  work queue and the cancellation channel, and the workers have stopped when
  \<^verbatim>\<open>wg.Wait\<close> is reached.
\<close>

fun collectChunkUploadError :: "chunkUploadResult list \<Rightarrow> nat \<Rightarrow> chunkUploadResult option option" where
  "collectChunkUploadError rs 0 = Some None"
| "collectChunkUploadError [] (Suc n) = None"
| "collectChunkUploadError (r # rs) (Suc n) =
     (case err r of
        Some e \<Rightarrow> Some (Some r)
      | None \<Rightarrow> collectChunkUploadError rs n)"

text \<open>
  Save, up to the results of the workers: the temporary file, the copy of the stream, the
  number of chunks, the workers and the loop that sends the chunks. \<open>Inl\<close> is an error
  that Save returns at once; \<open>Inr\<close> carries the number of chunks, the results in the
  order in which they reach the collector, and the backend calls of the workers. With no
  worker (\<^verbatim>\<open>maxParallelChunkUploads\<close> zero) no chunk is uploaded.
\<close>

definition Save_upload ::
  "pkg \<Rightarrow> ABSSnapStore \<Rightarrow> backend \<Rightarrow> save_io \<Rightarrow> (chunk list \<Rightarrow> chunk list) \<Rightarrow> Snapshot
     \<Rightarrow> (error + (int \<times> chunkUploadResult list \<times> backend_call list)) outcome" where
  "Save_upload k a b io sched snap =
     (case createTemp_err io of
        Some e \<Rightarrow> Returns (Inl (CreateTempFailed e))
      | None \<Rightarrow>
     (case copy_result io of
        Inl e \<Rightarrow> Returns (Inl (CopyFailed e))
      | Inr written \<Rightarrow>
     (let fsize = int written;
          chunkSize = minChunkSize a
      in if chunkSize = 0 then Panics
         else
     (let n = noOfChunks fsize chunkSize
      in if n < 0 then Panics
         else
     (case dispatchChunks fsize chunkSize 0 1 of
        None \<Rightarrow> Blocks
      | Some chunks \<Rightarrow>
     (case blockUploader k a b io fsize snap
             (if maxParallelChunkUploads a = 0 then [] else sched chunks) of
        Panics \<Rightarrow> Panics
      | Blocks \<Rightarrow> Blocks
      | Returns (results, staged) \<Rightarrow> Returns (Inr (n, results, staged))))))))"

definition Save ::
  "pkg \<Rightarrow> ABSSnapStore \<Rightarrow> backend \<Rightarrow> save_io \<Rightarrow> (chunk list \<Rightarrow> chunk list) \<Rightarrow> Snapshot
     \<Rightarrow> (error option \<times> backend_call list) outcome" where
  "Save k a b io sched snap =
     (case Save_upload k a b io sched snap of
        Panics \<Rightarrow> Panics
      | Blocks \<Rightarrow> Blocks
      | Returns (Inl e) \<Rightarrow> Returns (Some e, [])
      | Returns (Inr (n, results, staged)) \<Rightarrow>
     (case collectChunkUploadError results (nat n) of
        None \<Rightarrow> Blocks
      | Some (Some snapshotErr) \<Rightarrow>
          Returns (Some (ChunkUploadFailed (chunk_id (chunk snapshotErr))
                           (offset (chunk snapshotErr)) (err snapshotErr)),
                   staged)
      | Some None \<Rightarrow>
          (let blobName = path_Join [adaptPrefix k snap (prefix a), SnapDir snap, SnapName snap];
               blockList = blockList_from 1 n
           in case commitBlockList_resp b blobName blockList of
                Some e \<Rightarrow>
                  Returns (Some (BlocklistFailed e), staged @ [CommitBlockList blobName blockList])
              | None \<Rightarrow> Returns (None, staged @ [CommitBlockList blobName blockList]))))"

subsection \<open>List\<close>

text \<open>\<^verbatim>\<open>sort.Sort\<close> with the order of \<^verbatim>\<open>SnapList\<close>, as an insertion sort.\<close>

fun sort_insert :: "('a \<Rightarrow> 'a \<Rightarrow> bool) \<Rightarrow> 'a \<Rightarrow> 'a list \<Rightarrow> 'a list" where
  "sort_insert lt x [] = [x]"
| "sort_insert lt x (y # ys) =
     (if lt y x then y # sort_insert lt x ys else x # y # ys)"

fun sort_Sort :: "('a \<Rightarrow> 'a \<Rightarrow> bool) \<Rightarrow> 'a list \<Rightarrow> 'a list" where
  "sort_Sort lt [] = []"
| "sort_Sort lt (x # xs) = sort_insert lt x (sort_Sort lt xs)"

definition listPrefix :: "ABSSnapStore \<Rightarrow> string" where
  "listPrefix a =
     (let prefixTokens = strings_Split CHR ''/'' (prefix a)
      in path_Join [strings_Join (take (length prefixTokens - 1) prefixTokens) ''/''])"

text \<open>The body of the loop over the blobs of one page: the snapshots appended and the
  names warned about.\<close>

fun List_blobs :: "pkg \<Rightarrow> string \<Rightarrow> string list \<Rightarrow> Snapshot list \<times> string list" where
  "List_blobs k pfx [] = ([], [])"
| "List_blobs k pfx (name # names) =
     (let (snaps, warned) = List_blobs k pfx names in
      if strings_Contains name (backupVersionV1 k) \<or> strings_Contains name (backupVersionV2 k) then
        (let blobName = strings_TrimPrefix name pfx in
         case ParseSnapshot k (path_Join [pfx, blobName]) of
           Inl e \<Rightarrow> (snaps, name # warned)
         | Inr s \<Rightarrow> (s # snaps, warned))
      else (snaps, warned))"

text \<open>The loop over the pages: the snapshots so far, or the error of the page that failed,
  with the number of \<^verbatim>\<open>NextPage\<close> calls made and the warnings.\<close>

fun List_pages ::
  "pkg \<Rightarrow> string \<Rightarrow> (error + string list) list \<Rightarrow> (error + Snapshot list) \<times> backend_call list \<times> string list" where
  "List_pages k pfx [] = (Inr [], [], [])"
| "List_pages k pfx (page # pages) =
     (case page of
        Inl e \<Rightarrow> (Inl (ListFailed e), [NextPage], [])
      | Inr names \<Rightarrow>
          (let (snaps, warned) = List_blobs k pfx names in
           case List_pages k pfx pages of
             (Inl e, calls, warned') \<Rightarrow> (Inl e, NextPage # calls, warned @ warned')
           | (Inr snaps', calls, warned') \<Rightarrow>
               (Inr (snaps @ snaps'), NextPage # calls, warned @ warned')))"

definition ABSSnapStore_List ::
  "pkg \<Rightarrow> ABSSnapStore \<Rightarrow> backend \<Rightarrow> (error + Snapshot list) \<times> backend_call list \<times> string list" where
  "ABSSnapStore_List k a b =
     (let pfx = listPrefix a in
      case List_pages k pfx (pager_pages b pfx) of
        (Inl e, calls, warned) \<Rightarrow> (Inl e, NewListBlobsFlatPager pfx # calls, warned)
      | (Inr snapList, calls, warned) \<Rightarrow>
          (Inr (sort_Sort (Less k) snapList), NewListBlobsFlatPager pfx # calls, warned))"

text \<open>The number that a string of decimal digits denotes; it reads back what
  \<open>sprintf_010d\<close> writes, which shows that different part numbers get different block
  identifiers.\<close>

definition decimal_value :: "string \<Rightarrow> nat" where
  "decimal_value s = foldl (\<lambda>acc ch. 10 * acc + (of_char ch - 48)) 0 s"


subsection \<open>Example environments\<close>

text \<open>Concrete environments on which the theorems below are instantiated. In the first
  both credential variables are set; the JSON file and the two files of the directory
  hold different credentials and have different modification times.\<close>

definition env_both :: os where
  "env_both =
     \<lparr>environ = [''AZURE_APPLICATION_CREDENTIALS_JSON'' \<mapsto> ''/creds/abs.json'',
                 ''AZURE_APPLICATION_CREDENTIALS'' \<mapsto> ''/creds/dir''],
      file_data = [''/creds/abs.json'' \<mapsto> ''J'',
                   ''/creds/dir/storageAccount'' \<mapsto> ''acctD'',
                   ''/creds/dir/storageKey'' \<mapsto> ''keyD''],
      dir_entries = [''/creds/dir'' \<mapsto> [''storageAccount'', ''storageKey'']],
      mod_time = [''/creds/abs.json'' \<mapsto> 100,
                  ''/creds/dir/storageAccount'' \<mapsto> 200,
                  ''/creds/dir/storageKey'' \<mapsto> 300],
      json_Unmarshal = (\<lambda>s. if s = ''J''
         then Some \<lparr>BucketName = ''b'', SecretKey = ''keyJ'', StorageAccount = ''acctJ''\<rparr>
         else None)\<rparr>"

text \<open>Only the directory variable is set, and the directory holds the two per-field
  files and no JSON file.\<close>

definition env_dir_files :: os where
  "env_dir_files = env_both\<lparr>environ := [''AZURE_APPLICATION_CREDENTIALS'' \<mapsto> ''/creds/dir'']\<rparr>"

text \<open>Only the directory variable is set, and the directory holds a JSON file that does
  not parse beside the two per-field files.\<close>

definition env_dir_badjson :: os where
  "env_dir_badjson =
     env_both\<lparr>environ := [''AZURE_APPLICATION_CREDENTIALS'' \<mapsto> ''/creds/dir''],
              file_data := [''/creds/dir/abs.json'' \<mapsto> ''not json'',
                            ''/creds/dir/storageAccount'' \<mapsto> ''acctD'',
                            ''/creds/dir/storageKey'' \<mapsto> ''keyD''],
              dir_entries := [''/creds/dir'' \<mapsto> [''abs.json'', ''storageAccount'', ''storageKey'']]\<rparr>"

text \<open>No credential variable is set.\<close>

definition env_none :: os where
  "env_none = env_both\<lparr>environ := Map.empty\<rparr>"

text \<open>The emulator is enabled, with and without its endpoint variable, and the flag
  has a value that is not a boolean.\<close>

definition env_emulator :: os where
  "env_emulator =
     env_both\<lparr>environ := [''AZURE_EMULATOR_ENABLED'' \<mapsto> ''true'',
                           ''AZURE_STORAGE_API_ENDPOINT'' \<mapsto> ''http://localhost:10000'']\<rparr>"

definition env_emulator_no_endpoint :: os where
  "env_emulator_no_endpoint = env_both\<lparr>environ := [''AZURE_EMULATOR_ENABLED'' \<mapsto> ''true'']\<rparr>"

definition env_emulator_invalid :: os where
  "env_emulator_invalid = env_both\<lparr>environ := [''AZURE_EMULATOR_ENABLED'' \<mapsto> ''yes'']\<rparr>"

subsection \<open>Example store, backend and snapshots\<close>

text \<open>A stand-in for the parts of the package that are parameters of the model: the
  version tags \<open>v1\<close> and \<open>v2\<close>, a parser that accepts the names whose last element
  starts with \<open>Full-\<close> or \<open>Incr-\<close> and splits them into prefix, directory and name, the
  identity as prefix adaptation, and the order of the names.\<close>

definition pkg_example :: pkg where
  "pkg_example =
     \<lparr>backupVersionV1 = ''v1'',
      backupVersionV2 = ''v2'',
      ParseSnapshot = (\<lambda>name.
         case rev (strings_Split CHR ''/'' name) of
           n # d # rest \<Rightarrow>
             if strings_HasPrefix n ''Full-'' \<or> strings_HasPrefix n ''Incr-''
             then Inr \<lparr>Prefix = strings_Join (rev rest) ''/'', SnapDir = d, SnapName = n\<rparr>
             else Inl (SDKError name)
         | _ \<Rightarrow> Inl (SDKError name)),
      adaptPrefix = (\<lambda>snap p. p),
      Less = (\<lambda>s t. SnapName s < SnapName t)\<rparr>"

definition store_example :: ABSSnapStore where
  "store_example =
     \<lparr>container = ''backups'', prefix = ''etcd/v2'', maxParallelChunkUploads = 2,
      minChunkSize = 4, tempDir = ''/tmp''\<rparr>"

definition snap_example :: Snapshot where
  "snap_example = \<lparr>Prefix = ''etcd/v2'', SnapDir = ''Backup-1'', SnapName = ''Full-0-10-1''\<rparr>"

text \<open>A backend that accepts every call and lists nothing, and one that refuses to stage
  the second block.\<close>

definition backend_ok :: backend where
  "backend_ok =
     \<lparr>stageBlock_resp = (\<lambda>blob bid. None),
      commitBlockList_resp = (\<lambda>blob l. None),
      downloadStream_resp = (\<lambda>blob. Inl (SDKError ''BlobNotFound'')),
      delete_resp = (\<lambda>blob. None),
      pager_pages = (\<lambda>pfx. [])\<rparr>"

definition backend_fail2 :: backend where
  "backend_fail2 =
     backend_ok\<lparr>stageBlock_resp :=
       (\<lambda>blob bid. if bid = ''MDAwMDAwMDAwMg=='' then Some (SDKError ''timeout'') else None)\<rparr>"

text \<open>A local file system without failures, for a stream of the given length.\<close>

definition io_example :: "nat \<Rightarrow> save_io" where
  "io_example written = \<lparr>createTemp_err = None, copy_result = Inr written, stat_err = None\<rparr>"

text \<open>A backend whose listing has two pages: the first holds a snapshot, a name that
  carries a version tag and does not parse, and a name without a version tag; the second
  holds a snapshot written under the older tag.\<close>

definition backend_list :: backend where
  "backend_list =
     backend_ok\<lparr>pager_pages := (\<lambda>pfx.
        [Inr [''etcd/v2/Backup-1/Incr-11-20-2'', ''etcd/v2/Backup-1/junk'', ''etcd/other''],
         Inr [''etcd/v1/Backup-0/Full-0-10-1'']])\<rparr>"

text \<open>A backend whose listing names the same object on two pages.\<close>

definition backend_dup :: backend where
  "backend_dup =
     backend_ok\<lparr>pager_pages := (\<lambda>pfx.
        [Inr [''etcd/v2/Backup-1/Full-0-10-1''], Inr [''etcd/v2/Backup-1/Full-0-10-1'']])\<rparr>"



section \<open>Credential resolution: properties\<close>

subsection \<open>Auxiliary facts\<close>

lemma readABSCredentialFiles_loop_account:
  "readABSCredentialFiles_loop w dir c0 files = Inr c \<Longrightarrow>
     (if ''storageAccount'' \<in> set files
      then os_ReadFile w (dir @ ''/storageAccount'') = Inr (StorageAccount c)
      else StorageAccount c = StorageAccount c0)"
proof (induction files arbitrary: c0)
  case Nil
  then show ?case by simp
next
  case (Cons f files)
  show ?case
  proof (cases "f = ''storageAccount''")
    case True
    with Cons.prems obtain d where d: "os_ReadFile w (dir @ ''/storageAccount'') = Inr d"
      and r: "readABSCredentialFiles_loop w dir (c0\<lparr>StorageAccount := d\<rparr>) files = Inr c"
      by (auto split: sum.splits)
    from Cons.IH[OF r] d True show ?thesis by (auto split: if_splits)
  next
    case False
    show ?thesis
    proof (cases "f = ''storageKey''")
      case True
      with Cons.prems obtain d where
        r: "readABSCredentialFiles_loop w dir (c0\<lparr>SecretKey := d\<rparr>) files = Inr c"
        by (auto split: sum.splits)
      from Cons.IH[OF r] True show ?thesis by (auto split: if_splits)
    next
      case nk: False
      with False Cons.prems have
        r: "readABSCredentialFiles_loop w dir c0 files = Inr c" by simp
      from Cons.IH[OF r] False nk show ?thesis by (auto split: if_splits)
    qed
  qed
qed

lemma readABSCredentialFiles_loop_key:
  "readABSCredentialFiles_loop w dir c0 files = Inr c \<Longrightarrow>
     (if ''storageKey'' \<in> set files
      then os_ReadFile w (dir @ ''/storageKey'') = Inr (SecretKey c)
      else SecretKey c = SecretKey c0)"
proof (induction files arbitrary: c0)
  case Nil
  then show ?case by simp
next
  case (Cons f files)
  show ?case
  proof (cases "f = ''storageAccount''")
    case True
    with Cons.prems obtain d where
      r: "readABSCredentialFiles_loop w dir (c0\<lparr>StorageAccount := d\<rparr>) files = Inr c"
      by (auto split: sum.splits)
    from Cons.IH[OF r] True show ?thesis by (auto split: if_splits)
  next
    case False
    show ?thesis
    proof (cases "f = ''storageKey''")
      case True
      with False Cons.prems obtain d where d: "os_ReadFile w (dir @ ''/storageKey'') = Inr d"
        and r: "readABSCredentialFiles_loop w dir (c0\<lparr>SecretKey := d\<rparr>) files = Inr c"
        by (auto split: sum.splits)
      from Cons.IH[OF r] d True show ?thesis by (auto split: if_splits)
    next
      case nk: False
      with False Cons.prems have
        r: "readABSCredentialFiles_loop w dir c0 files = Inr c" by simp
      from Cons.IH[OF r] False nk show ?thesis by (auto split: if_splits)
    qed
  qed
qed

lemma readABSCredentialFiles_Inr:
  assumes "readABSCredentialFiles w dir = Inr c"
  shows "\<exists>files. os_ReadDir w dir = Inr files
           \<and> ''storageAccount'' \<in> set files \<and> ''storageKey'' \<in> set files
           \<and> os_ReadFile w (dir @ ''/storageAccount'') = Inr (StorageAccount c)
           \<and> os_ReadFile w (dir @ ''/storageKey'') = Inr (SecretKey c)
           \<and> StorageAccount c \<noteq> [] \<and> SecretKey c \<noteq> []"
proof -
  from assms obtain files where rd: "os_ReadDir w dir = Inr files"
    and lp: "readABSCredentialFiles_loop w dir
               \<lparr>BucketName = [], SecretKey = [], StorageAccount = []\<rparr> files = Inr c"
    and ne: "isABSConfigEmpty c = None"
    by (auto simp: readABSCredentialFiles_def split: sum.splits option.splits)
  from ne have nz: "StorageAccount c \<noteq> []" "SecretKey c \<noteq> []"
    by (auto simp: isABSConfigEmpty_def split: if_splits)
  from readABSCredentialFiles_loop_account[OF lp] nz have a: "''storageAccount'' \<in> set files"
    "os_ReadFile w (dir @ ''/storageAccount'') = Inr (StorageAccount c)"
    by (auto split: if_splits)
  from readABSCredentialFiles_loop_key[OF lp] nz have k: "''storageKey'' \<in> set files"
    "os_ReadFile w (dir @ ''/storageKey'') = Inr (SecretKey c)"
    by (auto split: if_splits)
  from rd a k nz show ?thesis by blast
qed


lemma path_Clean_nonempty: "path_Clean p \<noteq> []"
proof -
  have "\<And>out::string. (if out = [] then ''.'' else out) \<noteq> []" by simp
  then show ?thesis unfolding path_Clean_def Let_def by (cases "p = []") simp_all
qed

lemma path_Join_nonempty: "concat elem \<noteq> [] \<Longrightarrow> path_Join elem \<noteq> []"
  by (simp add: path_Join_def path_Clean_nonempty)

lemma findFile_cases:
  "findFileWithExtensionInDir w dir ext =
     (case dir_entries w dir of
        None \<Rightarrow> Inl (OSError dir)
      | Some es \<Rightarrow>
          (case filter (\<lambda>n. strings_HasSuffix n ext) es of
             [] \<Rightarrow> Inr []
           | n # _ \<Rightarrow> Inr (path_Join [dir, n])))"
  by (simp add: findFileWithExtensionInDir_def os_ReadDir_def split: option.splits)

lemma HasSuffix_nonempty: "strings_HasSuffix n ext \<Longrightarrow> ext \<noteq> [] \<Longrightarrow> n \<noteq> []"
  by (auto simp: strings_HasSuffix_def)

lemma findFile_found_nonempty:
  assumes "dir_entries w dir = Some es"
    and "filter (\<lambda>n. strings_HasSuffix n ''.json'') es = n # rest"
  shows "findFileWithExtensionInDir w dir ''.json'' = Inr (path_Join [dir, n])"
    and "path_Join [dir, n] \<noteq> []"
proof -
  show "findFileWithExtensionInDir w dir ''.json'' = Inr (path_Join [dir, n])"
    using assms by (simp add: findFile_cases)
  have "n \<in> set (filter (\<lambda>n. strings_HasSuffix n ''.json'') es)"
    using assms(2) by simp
  then have "strings_HasSuffix n ''.json''" by simp
  then have "n \<noteq> []" by (rule HasSuffix_nonempty) simp
  then show "path_Join [dir, n] \<noteq> []" by (intro path_Join_nonempty) simp
qed

lemma env_names_differ: "p @ absCredentialDirectory \<noteq> p @ absCredentialJSONFile"
  by (simp add: absCredentialDirectory_def absCredentialJSONFile_def)

lemma getCredentials_jsonFile:
  "os_LookupEnv w (p @ absCredentialJSONFile) = Some filename \<Longrightarrow>
     getCredentials w p =
       (case readABSCredentialsJSON w filename of
          Inl e0 \<Rightarrow> Inl (JSONFileError filename)
        | Inr c \<Rightarrow> Inr (StorageAccount c, SecretKey c))"
  by (simp add: getCredentials_def)

lemma readABSCredentialsJSON_cong:
  "file_data w' filename = file_data w filename \<Longrightarrow> json_Unmarshal w' = json_Unmarshal w \<Longrightarrow>
     readABSCredentialsJSON w' filename = readABSCredentialsJSON w filename"
  by (simp add: readABSCredentialsJSON_def os_ReadFile_def absCredentialsFromJSON_def
      split: option.splits)

lemma getCredentials_files:
  "os_LookupEnv w (p @ absCredentialJSONFile) = None \<Longrightarrow>
   os_LookupEnv w (p @ absCredentialDirectory) = Some dir \<Longrightarrow>
   findFileWithExtensionInDir w dir ''.json'' = Inr [] \<Longrightarrow>
     getCredentials w p =
       (case readABSCredentialFiles w dir of
          Inl e0 \<Rightarrow> Inl (CredDirError dir)
        | Inr c \<Rightarrow> Inr (StorageAccount c, SecretKey c))"
  by (simp add: getCredentials_def getCredentials_dirJSON_def getCredentials_dirFiles_def
      split: sum.splits)

lemma getCredentials_none:
  "os_LookupEnv w (p @ absCredentialJSONFile) = None \<Longrightarrow>
   os_LookupEnv w (p @ absCredentialDirectory) = None \<Longrightarrow>
     getCredentials w p = Inl UnableToGetCredentials"
  by (simp add: getCredentials_def getCredentials_dirJSON_def getCredentials_dirFiles_def)

lemma getCredentials_Inr:
  assumes "getCredentials w p = Inr (a, k)"
  shows "(\<exists>f c. os_LookupEnv w (p @ absCredentialJSONFile) = Some f
            \<and> readABSCredentialsJSON w f = Inr c \<and> a = StorageAccount c \<and> k = SecretKey c)
       \<or> (os_LookupEnv w (p @ absCredentialJSONFile) = None
          \<and> (\<exists>dir f c. os_LookupEnv w (p @ absCredentialDirectory) = Some dir
                \<and> findFileWithExtensionInDir w dir ''.json'' = Inr f
                \<and> (if f \<noteq> [] then readABSCredentialsJSON w f = Inr c
                    else readABSCredentialFiles w dir = Inr c)
                \<and> a = StorageAccount c \<and> k = SecretKey c))"
proof (cases "os_LookupEnv w (p @ absCredentialJSONFile)")
  case (Some f)
  with assms show ?thesis
    by (auto simp: getCredentials_jsonFile split: sum.splits)
next
  case None
  show ?thesis
  proof (cases "os_LookupEnv w (p @ absCredentialDirectory)")
    case n2: None
    with None assms show ?thesis by (simp add: getCredentials_none)
  next
    case (Some dir)
    show ?thesis
    proof (cases "findFileWithExtensionInDir w dir ''.json''")
      case (Inl e)
      with None Some assms show ?thesis
        by (simp add: getCredentials_def getCredentials_dirJSON_def)
    next
      case (Inr f)
      show ?thesis
      proof (cases "f = []")
        case True
        with None Some Inr assms show ?thesis
          by (auto simp: getCredentials_files split: sum.splits)
      next
        case False
        with None Some Inr assms show ?thesis
          by (auto simp: getCredentials_def getCredentials_dirJSON_def split: sum.splits)
      qed
    qed
  qed
qed

lemma getCredentials_jsonFile_only:
  assumes js: "os_LookupEnv w (p @ absCredentialJSONFile) = Some filename"
    and e: "os_LookupEnv w' (p @ absCredentialJSONFile) = Some filename"
    and f: "file_data w' filename = file_data w filename"
    and u: "json_Unmarshal w' = json_Unmarshal w"
  shows "getCredentials w' p = getCredentials w p"
proof -
  have r: "readABSCredentialsJSON w' filename = readABSCredentialsJSON w filename"
    using f u by (rule readABSCredentialsJSON_cong)
  show ?thesis
    unfolding getCredentials_jsonFile[OF e] getCredentials_jsonFile[OF js] r ..
qed


lemmas env_simps =
  env_both_def env_dir_files_def env_dir_badjson_def env_none_def
  env_emulator_def env_emulator_no_endpoint_def env_emulator_invalid_def
  os_LookupEnv_def os_ReadFile_def os_ReadDir_def os_Stat_ModTime_def
  absCredentialJSONFile_def absCredentialDirectory_def AzuriteEndpoint_def
  EnvAzureEmulatorEnabled_def

subsection \<open>Precedence of the sources\<close>

text \<open>
  Claim C3. When the variable of the JSON credential file is set, \<open>getCredentials\<close>
  returns what reading that file gives, whatever the directory variable, the directory
  listings and every other file are: two environments that agree on the variable, on the
  file it names and on the decoder give the same result. When resolution reaches the
  per-field files (no JSON variable, the directory variable set, no JSON file found in
  the directory) the result is that of \<open>readABSCredentialFiles\<close>, which succeeds only if
  the directory lists both \<open>storageAccount\<close> and \<open>storageKey\<close> and both files are read
  with non-empty contents. With neither variable set the result is the error
  \<open>UnableToGetCredentials\<close>, and every successful resolution comes from one of the three
  sources.
\<close>

theorem getCredentials_precedence:
  "(os_LookupEnv w (p @ absCredentialJSONFile) = Some filename \<longrightarrow>
      getCredentials w p =
        (case readABSCredentialsJSON w filename of
           Inl e0 \<Rightarrow> Inl (JSONFileError filename)
         | Inr c \<Rightarrow> Inr (StorageAccount c, SecretKey c))
      \<and> (\<forall>w'. os_LookupEnv w' (p @ absCredentialJSONFile) = Some filename
              \<and> file_data w' filename = file_data w filename
              \<and> json_Unmarshal w' = json_Unmarshal w
            \<longrightarrow> getCredentials w' p = getCredentials w p))
   \<and> (os_LookupEnv w (p @ absCredentialJSONFile) = None
       \<and> os_LookupEnv w (p @ absCredentialDirectory) = Some dir
       \<and> findFileWithExtensionInDir w dir ''.json'' = Inr [] \<longrightarrow>
      getCredentials w p =
        (case readABSCredentialFiles w dir of
           Inl e0 \<Rightarrow> Inl (CredDirError dir)
         | Inr c \<Rightarrow> Inr (StorageAccount c, SecretKey c)))
   \<and> (readABSCredentialFiles w dir = Inr c \<longrightarrow>
        (\<exists>files. os_ReadDir w dir = Inr files
           \<and> ''storageAccount'' \<in> set files \<and> ''storageKey'' \<in> set files
           \<and> os_ReadFile w (dir @ ''/storageAccount'') = Inr (StorageAccount c)
           \<and> os_ReadFile w (dir @ ''/storageKey'') = Inr (SecretKey c)
           \<and> StorageAccount c \<noteq> [] \<and> SecretKey c \<noteq> []))
   \<and> (os_LookupEnv w (p @ absCredentialJSONFile) = None
       \<and> os_LookupEnv w (p @ absCredentialDirectory) = None \<longrightarrow>
      getCredentials w p = Inl UnableToGetCredentials)
   \<and> (getCredentials w p = Inr (a, k) \<longrightarrow>
        (\<exists>f c. os_LookupEnv w (p @ absCredentialJSONFile) = Some f
            \<and> readABSCredentialsJSON w f = Inr c \<and> a = StorageAccount c \<and> k = SecretKey c)
       \<or> (os_LookupEnv w (p @ absCredentialJSONFile) = None
          \<and> (\<exists>dir f c. os_LookupEnv w (p @ absCredentialDirectory) = Some dir
                \<and> findFileWithExtensionInDir w dir ''.json'' = Inr f
                \<and> (if f \<noteq> [] then readABSCredentialsJSON w f = Inr c
                    else readABSCredentialFiles w dir = Inr c)
                \<and> a = StorageAccount c \<and> k = SecretKey c)))"
  apply (intro conjI impI allI)
  subgoal by (rule getCredentials_jsonFile)
  subgoal for w' by (elim conjE) (rule getCredentials_jsonFile_only)
  subgoal by (elim conjE) (rule getCredentials_files)
  subgoal by (rule readABSCredentialFiles_Inr)
  subgoal by (elim conjE) (rule getCredentials_none)
  subgoal by (rule getCredentials_Inr)
  done


theorem getCredentials_precedence_witness:
  "os_LookupEnv env_both absCredentialJSONFile = Some ''/creds/abs.json''
   \<and> os_LookupEnv env_both absCredentialDirectory = Some ''/creds/dir''
   \<and> getCredentials env_both [] = Inr (''acctJ'', ''keyJ'')
   \<and> os_LookupEnv env_dir_files absCredentialJSONFile = None
   \<and> os_LookupEnv env_dir_files absCredentialDirectory = Some ''/creds/dir''
   \<and> findFileWithExtensionInDir env_dir_files ''/creds/dir'' ''.json'' = Inr []
   \<and> getCredentials env_dir_files [] = Inr (''acctD'', ''keyD'')
   \<and> os_LookupEnv env_none absCredentialDirectory = None
   \<and> getCredentials env_none [] = Inl UnableToGetCredentials"
proof -
  have b1: "os_LookupEnv env_both ([] @ absCredentialJSONFile) = Some ''/creds/abs.json''"
    and b2: "os_LookupEnv env_both absCredentialDirectory = Some ''/creds/dir''"
    by (simp_all add: env_simps)
  have b3: "readABSCredentialsJSON env_both ''/creds/abs.json''
              = Inr \<lparr>BucketName = ''b'', SecretKey = ''keyJ'', StorageAccount = ''acctJ''\<rparr>"
    by (simp add: readABSCredentialsJSON_def absCredentialsFromJSON_def env_simps)
  have d1: "os_LookupEnv env_dir_files ([] @ absCredentialJSONFile) = None
       \<and> os_LookupEnv env_dir_files ([] @ absCredentialDirectory) = Some ''/creds/dir''
       \<and> findFileWithExtensionInDir env_dir_files ''/creds/dir'' ''.json'' = Inr []"
    by (simp add: findFileWithExtensionInDir_def strings_HasSuffix_def env_simps)
  have d2: "readABSCredentialFiles env_dir_files ''/creds/dir''
              = Inr \<lparr>BucketName = [], SecretKey = ''keyD'', StorageAccount = ''acctD''\<rparr>"
    by (simp add: readABSCredentialFiles_def isABSConfigEmpty_def env_simps)
  have n1: "os_LookupEnv env_none ([] @ absCredentialJSONFile) = None
       \<and> os_LookupEnv env_none ([] @ absCredentialDirectory) = None"
    by (simp add: env_simps)
  from getCredentials_precedence[of env_both "[]" "''/creds/abs.json''",
         THEN conjunct1, rule_format, OF b1, THEN conjunct1] b3
  have r1: "getCredentials env_both [] = Inr (''acctJ'', ''keyJ'')" by simp
  from getCredentials_precedence[of env_dir_files "[]" _ "''/creds/dir''",
         THEN conjunct2, THEN conjunct1, rule_format, OF d1] d2
  have r2: "getCredentials env_dir_files [] = Inr (''acctD'', ''keyD'')" by simp
  from getCredentials_precedence[of env_none "[]",
         THEN conjunct2, THEN conjunct2, THEN conjunct2, THEN conjunct1, rule_format, OF n1]
  have r3: "getCredentials env_none [] = Inl UnableToGetCredentials" .
  from b1 b2 d1 n1 r1 r2 r3 show ?thesis by simp
qed

subsection \<open>The JSON file of the credential directory\<close>

text \<open>
  Claim C6. With the JSON variable unset and the directory variable set to a readable
  directory: when the directory lists a file with the extension \<open>.json\<close> and reading or
  decoding the first such file fails, \<open>getCredentials\<close> returns the error
  \<open>JSONInDirError\<close> for that file, and the per-field files are not tried; when the
  directory lists no such file, the result is that of the per-field files.
\<close>

theorem getCredentials_directory_json:
  assumes "os_LookupEnv w (p @ absCredentialJSONFile) = None"
    and "os_LookupEnv w (p @ absCredentialDirectory) = Some dir"
    and "dir_entries w dir = Some es"
  shows "(\<forall>n rest e0. filter (\<lambda>n. strings_HasSuffix n ''.json'') es = n # rest
            \<and> readABSCredentialsJSON w (path_Join [dir, n]) = Inl e0 \<longrightarrow>
          getCredentials w p = Inl (JSONInDirError (path_Join [dir, n]) e0))
       \<and> (filter (\<lambda>n. strings_HasSuffix n ''.json'') es = [] \<longrightarrow>
          getCredentials w p =
            (case readABSCredentialFiles w dir of
               Inl e0 \<Rightarrow> Inl (CredDirError dir)
             | Inr c \<Rightarrow> Inr (StorageAccount c, SecretKey c)))"
proof (intro conjI impI allI)
  fix n rest e0
  assume h: "filter (\<lambda>n. strings_HasSuffix n ''.json'') es = n # rest
            \<and> readABSCredentialsJSON w (path_Join [dir, n]) = Inl e0"
  from findFile_found_nonempty[OF assms(3)] h
  have "findFileWithExtensionInDir w dir ''.json'' = Inr (path_Join [dir, n])"
    and "path_Join [dir, n] \<noteq> []" by blast+
  with assms(1,2) h show "getCredentials w p = Inl (JSONInDirError (path_Join [dir, n]) e0)"
    by (simp add: getCredentials_def getCredentials_dirJSON_def)
next
  assume "filter (\<lambda>n. strings_HasSuffix n ''.json'') es = []"
  with assms(3) have "findFileWithExtensionInDir w dir ''.json'' = Inr []"
    by (simp add: findFile_cases)
  with assms(1,2) show "getCredentials w p =
            (case readABSCredentialFiles w dir of
               Inl e0 \<Rightarrow> Inl (CredDirError dir)
             | Inr c \<Rightarrow> Inr (StorageAccount c, SecretKey c))"
    by (rule getCredentials_files)
qed


theorem getCredentials_directory_json_witness:
  "os_LookupEnv env_dir_badjson absCredentialJSONFile = None
   \<and> os_LookupEnv env_dir_badjson absCredentialDirectory = Some ''/creds/dir''
   \<and> dir_entries env_dir_badjson ''/creds/dir''
        = Some [''abs.json'', ''storageAccount'', ''storageKey'']
   \<and> readABSCredentialFiles env_dir_badjson ''/creds/dir''
        = Inr \<lparr>BucketName = [], SecretKey = ''keyD'', StorageAccount = ''acctD''\<rparr>
   \<and> getCredentials env_dir_badjson []
        = Inl (JSONInDirError ''/creds/dir/abs.json'' UnmarshalError)
   \<and> dir_entries env_dir_files ''/creds/dir'' = Some [''storageAccount'', ''storageKey'']
   \<and> getCredentials env_dir_files [] = Inr (''acctD'', ''keyD'')"
proof -
  have a1: "os_LookupEnv env_dir_badjson ([] @ absCredentialJSONFile) = None"
    and a2: "os_LookupEnv env_dir_badjson ([] @ absCredentialDirectory) = Some ''/creds/dir''"
    and a3: "dir_entries env_dir_badjson ''/creds/dir''
               = Some [''abs.json'', ''storageAccount'', ''storageKey'']"
    by (simp_all add: env_simps)
  have a4: "filter (\<lambda>n. strings_HasSuffix n ''.json'') [''abs.json'', ''storageAccount'', ''storageKey'']
              = [''abs.json'']"
    by (simp add: strings_HasSuffix_def)
  have a5: "path_Join [''/creds/dir'', ''abs.json''] = ''/creds/dir/abs.json''"
    by (simp add: path_Join_def path_Clean_def)
  have a6: "readABSCredentialsJSON env_dir_badjson ''/creds/dir/abs.json'' = Inl UnmarshalError"
    by (simp add: readABSCredentialsJSON_def absCredentialsFromJSON_def env_simps)
  have a7: "readABSCredentialFiles env_dir_badjson ''/creds/dir''
        = Inr \<lparr>BucketName = [], SecretKey = ''keyD'', StorageAccount = ''acctD''\<rparr>"
    by (simp add: readABSCredentialFiles_def isABSConfigEmpty_def env_simps)
  have a8: "filter (\<lambda>n. strings_HasSuffix n ''.json'') [''abs.json'', ''storageAccount'', ''storageKey'']
              = ''abs.json'' # []
            \<and> readABSCredentialsJSON env_dir_badjson (path_Join [''/creds/dir'', ''abs.json''])
              = Inl UnmarshalError"
    using a4 a5 a6 by simp
  from getCredentials_directory_json[OF a1 a2 a3, THEN conjunct1, rule_format, OF a8] a5
  have r1: "getCredentials env_dir_badjson []
              = Inl (JSONInDirError ''/creds/dir/abs.json'' UnmarshalError)"
    by simp
  have d1: "os_LookupEnv env_dir_files ([] @ absCredentialJSONFile) = None"
    and d2: "os_LookupEnv env_dir_files ([] @ absCredentialDirectory) = Some ''/creds/dir''"
    and d3: "dir_entries env_dir_files ''/creds/dir'' = Some [''storageAccount'', ''storageKey'']"
    by (simp_all add: env_simps)
  have d4: "filter (\<lambda>n. strings_HasSuffix n ''.json'') [''storageAccount'', ''storageKey''] = []"
    by (simp add: strings_HasSuffix_def)
  have d5: "readABSCredentialFiles env_dir_files ''/creds/dir''
              = Inr \<lparr>BucketName = [], SecretKey = ''keyD'', StorageAccount = ''acctD''\<rparr>"
    by (simp add: readABSCredentialFiles_def isABSConfigEmpty_def env_simps)
  from getCredentials_directory_json[OF d1 d2 d3, THEN conjunct2, rule_format, OF d4] d5
  have r2: "getCredentials env_dir_files [] = Inr (''acctD'', ''keyD'')" by simp
  from a1 a2 a3 a7 r1 d3 r2 show ?thesis by simp
qed

subsection \<open>The endpoint\<close>

text \<open>
  Claim C7, as stated, fails where the flag parses to true and the endpoint variable is
  not set: the result is then an error, not a URL of the emulator.
\<close>

theorem ConstructABSURI_true_without_endpoint:
  "os_LookupEnv env_emulator_no_endpoint EnvAzureEmulatorEnabled = Some ''true''
   \<and> strconv_ParseBool ''true'' = Some True
   \<and> os_LookupEnv env_emulator_no_endpoint AzuriteEndpoint = None
   \<and> ConstructABSURI ''blob.core.windows.net'' env_emulator_no_endpoint ''account''
        = Inl EndpointNotSet"
  by (simp add: ConstructABSURI_def strconv_ParseBool_def env_simps)

text \<open>
  Claim C7, amended. \<open>ConstructABSURI\<close> returns the URL of the public service when the
  flag is absent or parses to false; when the flag parses to true it returns the value of
  the endpoint variable joined with the account name if that variable is set, and the
  error \<open>EndpointNotSet\<close> if it is not; for a value that does not parse as a boolean it
  returns the error \<open>InvalidEmulatorFlag\<close>.
\<close>

theorem ConstructABSURI_cases:
  "(os_LookupEnv w EnvAzureEmulatorEnabled = None \<longrightarrow>
      ConstructABSURI host w account = Inr (''https://'' @ account @ ''.'' @ host))
   \<and> (\<forall>v. os_LookupEnv w EnvAzureEmulatorEnabled = Some v \<longrightarrow>
        (strconv_ParseBool v = Some False \<longrightarrow>
           ConstructABSURI host w account = Inr (''https://'' @ account @ ''.'' @ host))
      \<and> (strconv_ParseBool v = Some True \<longrightarrow>
           (\<forall>e. os_LookupEnv w AzuriteEndpoint = Some e \<longrightarrow>
                ConstructABSURI host w account = Inr (e @ ''/'' @ account))
         \<and> (os_LookupEnv w AzuriteEndpoint = None \<longrightarrow>
                ConstructABSURI host w account = Inl EndpointNotSet))
      \<and> (strconv_ParseBool v = None \<longrightarrow>
           ConstructABSURI host w account = Inl (InvalidEmulatorFlag v)))"
  by (simp add: ConstructABSURI_def)


theorem ConstructABSURI_cases_witness:
  "os_LookupEnv env_none EnvAzureEmulatorEnabled = None
   \<and> ConstructABSURI ''blob.core.windows.net'' env_none ''account''
        = Inr ''https://account.blob.core.windows.net''
   \<and> os_LookupEnv env_emulator EnvAzureEmulatorEnabled = Some ''true''
   \<and> strconv_ParseBool ''true'' = Some True
   \<and> os_LookupEnv env_emulator AzuriteEndpoint = Some ''http://localhost:10000''
   \<and> ConstructABSURI ''blob.core.windows.net'' env_emulator ''account''
        = Inr ''http://localhost:10000/account''
   \<and> os_LookupEnv env_emulator_invalid EnvAzureEmulatorEnabled = Some ''yes''
   \<and> strconv_ParseBool ''yes'' = None
   \<and> ConstructABSURI ''blob.core.windows.net'' env_emulator_invalid ''account''
        = Inl (InvalidEmulatorFlag ''yes'')"
proof -
  have n: "os_LookupEnv env_none EnvAzureEmulatorEnabled = None"
    by (simp add: env_simps)
  have e1: "os_LookupEnv env_emulator EnvAzureEmulatorEnabled = Some ''true''"
    and e2: "strconv_ParseBool ''true'' = Some True"
    and e3: "os_LookupEnv env_emulator AzuriteEndpoint = Some ''http://localhost:10000''"
    by (simp_all add: strconv_ParseBool_def env_simps)
  have i1: "os_LookupEnv env_emulator_invalid EnvAzureEmulatorEnabled = Some ''yes''"
    and i2: "strconv_ParseBool ''yes'' = None"
    by (simp_all add: strconv_ParseBool_def env_simps)
  from ConstructABSURI_cases[of env_none "''blob.core.windows.net''" "''account''",
         THEN conjunct1, rule_format, OF n]
  have r1: "ConstructABSURI ''blob.core.windows.net'' env_none ''account''
              = Inr ''https://account.blob.core.windows.net''" by simp
  from ConstructABSURI_cases[of env_emulator "''blob.core.windows.net''" "''account''",
         THEN conjunct2, rule_format, OF e1, THEN conjunct2, THEN conjunct1, rule_format, OF e2,
         THEN conjunct1, rule_format, OF e3]
  have r2: "ConstructABSURI ''blob.core.windows.net'' env_emulator ''account''
              = Inr ''http://localhost:10000/account''" by simp
  from ConstructABSURI_cases[of env_emulator_invalid "''blob.core.windows.net''" "''account''",
         THEN conjunct2, rule_format, OF i1, THEN conjunct2, THEN conjunct2, rule_format, OF i2]
  have r3: "ConstructABSURI ''blob.core.windows.net'' env_emulator_invalid ''account''
              = Inl (InvalidEmulatorFlag ''yes'')" .
  from n e1 e2 e3 i1 i2 r1 r2 r3 show ?thesis by simp
qed

subsection \<open>Modification time against resolution\<close>

text \<open>
  Claim C2. The claim is that the query for the modification time probes the sources in
  the order of \<open>getCredentials\<close>. In the environment \<open>env_both\<close>, where both variables
  are set, \<open>getCredentials\<close> takes the credentials of the JSON file named by the first
  variable, whose modification time is 100, while \<open>GetABSCredentialsLastModifiedTime\<close>
  answers 300, the later of the times of the two files of the directory: the query
  probes the directory first and the JSON variable last.
\<close>

theorem lastModified_disagrees_with_getCredentials:
  "os_LookupEnv env_both absCredentialJSONFile = Some ''/creds/abs.json''
   \<and> os_LookupEnv env_both absCredentialDirectory = Some ''/creds/dir''
   \<and> getCredentials env_both [] = Inr (''acctJ'', ''keyJ'')
   \<and> readABSCredentialsJSON env_both ''/creds/abs.json''
        = Inr \<lparr>BucketName = ''b'', SecretKey = ''keyJ'', StorageAccount = ''acctJ''\<rparr>
   \<and> os_Stat_ModTime env_both ''/creds/abs.json'' = Inr 100
   \<and> GetABSCredentialsLastModifiedTime env_both = Inr 300
   \<and> getLatestCredentialsModifiedTime env_both
        [''/creds/dir/storageKey'', ''/creds/dir/storageAccount''] = Inr 300"
  by (simp add: getCredentials_def GetABSCredentialsLastModifiedTime_def
      readABSCredentialsJSON_def absCredentialsFromJSON_def
      lastModified_dirJSON_def lastModified_dirFiles_def getJSONCredentialModifiedTime_def
      findFileWithExtensionInDir_def strings_HasSuffix_def
      getLatestCredentialsModifiedTime_def path_Join_def path_Clean_def env_simps)

section \<open>Save: properties\<close>

subsection \<open>Chunk arithmetic\<close>

lemma go_quo_nonneg: "0 \<le> a \<Longrightarrow> 0 < b \<Longrightarrow> go_quo a b = a div b"
  by (cases "a = 0") (simp_all add: go_quo_def)

lemma go_rem_nonneg: "0 \<le> a \<Longrightarrow> 0 < b \<Longrightarrow> go_rem a b = a mod b"
  by (simp add: go_rem_def go_quo_nonneg minus_mult_div_eq_mod)

lemma noOfChunks_nonneg:
  "0 \<le> s \<Longrightarrow> 0 < c \<Longrightarrow> noOfChunks s c = (if s mod c = 0 then s div c else s div c + 1)"
  by (simp add: noOfChunks_def go_quo_nonneg go_rem_nonneg)

lemma noOfChunks_ceiling:
  assumes "0 \<le> s" "0 < c"
  shows "noOfChunks s c = \<lceil>real_of_int s / real_of_int c\<rceil>"
proof -
  have "\<lceil>real_of_int s / real_of_int c\<rceil> = - ((- s) div c)"
    by (rule ceiling_divide_eq_div)
  also have "\<dots> = (if s mod c = 0 then s div c else s div c + 1)"
    using assms by (simp add: zdiv_zminus1_eq_if)
  finally show ?thesis using noOfChunks_nonneg[OF assms] by simp
qed

lemma noOfChunks_zero: "noOfChunks 0 c = 0"
  by (simp add: noOfChunks_def go_quo_def go_rem_def)

lemma noOfChunks_step:
  assumes "0 < s" "0 < c"
  shows "noOfChunks s c = (if s \<le> c then 1 else noOfChunks (s - c) c + 1)"
proof (cases "s \<le> c")
  case True
  show ?thesis
  proof (cases "s = c")
    case True
    with assms show ?thesis by (simp add: noOfChunks_nonneg)
  next
    case False
    with True assms have "s < c" by simp
    with assms show ?thesis using True by (simp add: noOfChunks_nonneg div_pos_pos_trivial mod_pos_pos_trivial)
  qed
next
  case False
  then have g: "0 \<le> s - c" by simp
  have "s div c = ((s - c) + c) div c" by simp
  also have "\<dots> = (s - c) div c + 1" using assms by (subst div_add_self2) simp_all
  finally have d: "(s - c) div c = s div c - 1" by simp
  have m: "(s - c) mod c = s mod c" by simp
  show ?thesis using False assms g
    by (simp add: noOfChunks_nonneg d m)
qed

lemma noOfChunks_ge0: "0 \<le> s \<Longrightarrow> 0 < c \<Longrightarrow> 0 \<le> noOfChunks s c"
  by (simp add: noOfChunks_nonneg pos_imp_zdiv_nonneg_iff)

lemma dispatchChunks_pos:
  assumes c: "0 < c"
  shows "dispatchChunks s c off idx =
           Some (map (\<lambda>j. \<lparr>offset = off + int j * c, chunk_size = c, chunk_id = idx + int j, attempt = 0\<rparr>)
                   [0..<nat (if off < s then noOfChunks (s - off) c else 0)])"
proof (induction "nat (s - off)" arbitrary: off idx rule: less_induct)
  case less
  show ?case
  proof (cases "off < s")
    case False
    then show ?thesis by (subst dispatchChunks.simps) simp
  next
    case True
    define n' where "n' = nat (if off + c < s then noOfChunks (s - (off + c)) c else 0)"
    have lt: "nat (s - (off + c)) < nat (s - off)" using True c by simp
    have ih: "dispatchChunks s c (off + c) (idx + 1) =
           Some (map (\<lambda>j. \<lparr>offset = (off + c) + int j * c, chunk_size = c, chunk_id = (idx + 1) + int j, attempt = 0\<rparr>)
                   [0..<n'])"
      unfolding n'_def by (rule less[OF lt])
    have st: "noOfChunks (s - off) c = (if s - off \<le> c then 1 else noOfChunks (s - off - c) c + 1)"
      using True c by (intro noOfChunks_step) simp_all
    have n: "nat (noOfChunks (s - off) c) = Suc n'"
    proof (cases "s - off \<le> c")
      case True
      then show ?thesis using st by (simp add: n'_def)
    next
      case False
      then have "0 \<le> noOfChunks (s - off - c) c" using c by (intro noOfChunks_ge0) simp_all
      then show ?thesis using False st by (simp add: n'_def algebra_simps nat_add_distrib)
    qed
    show ?thesis
      apply (subst dispatchChunks.simps)
      apply (simp only: True if_True ih n)
      apply (simp add: map_upt_Suc algebra_simps del: upt_Suc)
      done
  qed
qed

lemma dispatchChunks_Some_pos:
  assumes "dispatchChunks s c off idx = Some cs"
  shows "off < s \<longrightarrow> 0 < c"
proof (rule dispatchChunks.raw_induct[where P = "\<lambda>s c off idx cs. off < s \<longrightarrow> 0 < c", OF _ assms])
  fix f :: "int \<Rightarrow> int \<Rightarrow> int \<Rightarrow> int \<Rightarrow> chunk list option" and s c off idx :: int and cs
  assume ih: "\<And>s c off idx cs. f s c off idx = Some cs \<Longrightarrow> off < s \<longrightarrow> 0 < c"
    and eq: "(if off < s
      then Option.bind (f s c (off + c) (idx + 1))
            (\<lambda>rest. Some (\<lparr>offset = off, chunk_size = c, chunk_id = idx, attempt = 0\<rparr> # rest))
      else Some []) = Some cs"
  show "off < s \<longrightarrow> 0 < c"
  proof
    assume lt: "off < s"
    with eq obtain rest where r: "f s c (off + c) (idx + 1) = Some rest"
      by (auto simp: bind_eq_Some_conv)
    from ih[OF r] have "off + c < s \<longrightarrow> 0 < c" .
    with lt show "0 < c" by (cases "0 < c") auto
  qed
qed


lemma blockList_from_upto: "blockList_from p n = map blockID [p..n]"
proof (induction p n rule: blockList_from.induct)
  case (1 p n)
  show ?case
  proof (cases "p \<le> n")
    case True
    with 1 show ?thesis
      by (subst blockList_from.simps) (simp add: upto_rec1)
  next
    case False
    then show ?thesis by (subst blockList_from.simps) simp
  qed
qed

lemma dispatchChunks_zero: "dispatchChunks 0 c 0 idx = Some []"
  by (subst dispatchChunks.simps) simp

lemma dispatchChunks_length:
  assumes d: "dispatchChunks s c 0 1 = Some cs" and s: "0 \<le> s"
  shows "length cs = nat (noOfChunks s c)"
proof (cases "s = 0")
  case True
  with d show ?thesis by (simp add: dispatchChunks_zero noOfChunks_zero)
next
  case False
  with s have lt: "0 < s" by simp
  with dispatchChunks_Some_pos[OF d] have c: "0 < c" by simp
  from d lt show ?thesis unfolding dispatchChunks_pos[OF c] by auto
qed

lemma collect_finds_error:
  "\<exists>r\<in>set rs. err r \<noteq> None \<Longrightarrow> length rs \<le> n \<Longrightarrow>
     \<exists>r\<in>set rs. err r \<noteq> None \<and> collectChunkUploadError rs n = Some (Some r)"
proof (induction rs arbitrary: n)
  case Nil
  then show ?case by simp
next
  case (Cons r rs)
  then obtain m where n: "n = Suc m" by (cases n) auto
  show ?case
  proof (cases "err r")
    case None
    with Cons.prems have "\<exists>r\<in>set rs. err r \<noteq> None" by auto
    moreover from Cons.prems n have "length rs \<le> m" by simp
    ultimately obtain r' where "r' \<in> set rs" "err r' \<noteq> None"
      "collectChunkUploadError rs m = Some (Some r')"
      using Cons.IH by blast
    with None n show ?thesis by auto
  next
    case (Some e)
    with n show ?thesis by auto
  qed
qed

lemma collect_no_error:
  "collectChunkUploadError rs n = Some None \<Longrightarrow>
     n \<le> length rs \<and> (\<forall>r\<in>set (take n rs). err r = None)"
proof (induction rs n rule: collectChunkUploadError.induct)
  case (1 rs)
  then show ?case by simp
next
  case (2 n)
  then show ?case by simp
next
  case (3 r rs n)
  then show ?case by (auto split: option.splits)
qed

lemma collect_all_ok:
  "\<forall>r\<in>set rs. err r = None \<Longrightarrow> length rs = n \<Longrightarrow> collectChunkUploadError rs n = Some None"
proof (induction rs arbitrary: n)
  case Nil
  then show ?case by simp
next
  case (Cons r rs)
  then obtain m where "n = Suc m" by (cases n) auto
  with Cons show ?case by auto
qed

lemma blockUploader_Returns:
  "blockUploader k a b io fs snap cs = Returns (rs, calls) \<Longrightarrow>
     map chunk rs = cs \<and> (\<forall>call\<in>set calls. \<exists>blob bid off sz. call = StageBlock blob bid off sz)"
proof (induction cs arbitrary: rs calls)
  case Nil
  then show ?case by simp
next
  case (Cons c cs)
  from Cons.prems obtain e calls1 rs' calls2 where
    u: "uploadBlock k a b io fs snap (offset c) (chunk_size c) = Returns (e, calls1)"
    and r: "blockUploader k a b io fs snap cs = Returns (rs', calls2)"
    and eq: "rs = \<lparr>err = e, chunk = c\<rparr> # rs'" "calls = calls1 @ calls2"
    by (auto split: outcome.splits prod.splits)
  from u have "\<forall>call\<in>set calls1. \<exists>blob bid off sz. call = StageBlock blob bid off sz"
    by (auto simp: uploadBlock_def Let_def split: option.splits if_splits)
  with Cons.IH[OF r] eq show ?case by auto
qed

lemma blockUploader_ok:
  "blockUploader k a b io fs snap cs = Returns (rs, calls) \<Longrightarrow> \<forall>r\<in>set rs. err r = None \<Longrightarrow>
     calls = map (\<lambda>c. StageBlock (path_Join [adaptPrefix k snap (prefix a), SnapDir snap, SnapName snap])
       (blockID (go_quo (offset c) (chunk_size c) + 1)) (offset c)
       (if fs - offset c > chunk_size c then chunk_size c else fs - offset c)) cs"
proof (induction cs arbitrary: rs calls)
  case Nil
  then show ?case by simp
next
  case (Cons c cs)
  from Cons.prems(1) obtain e calls1 rs' calls2 where
    u: "uploadBlock k a b io fs snap (offset c) (chunk_size c) = Returns (e, calls1)"
    and r: "blockUploader k a b io fs snap cs = Returns (rs', calls2)"
    and eq: "rs = \<lparr>err = e, chunk = c\<rparr> # rs'" "calls = calls1 @ calls2"
    by (auto split: outcome.splits prod.splits)
  from eq Cons.prems(2) have e: "e = None" and ok: "\<forall>r\<in>set rs'. err r = None" by auto
  from u e have "calls1 = [StageBlock (path_Join [adaptPrefix k snap (prefix a), SnapDir snap, SnapName snap])
       (blockID (go_quo (offset c) (chunk_size c) + 1)) (offset c)
       (if fs - offset c > chunk_size c then chunk_size c else fs - offset c)]"
    by (auto simp: uploadBlock_def Let_def split: option.splits if_splits)
  with Cons.IH[OF r ok] eq show ?case by simp
qed



lemma upto_1_as_map: "[1..int m] = map (\<lambda>j. int j + 1) [0..<m]"
proof (induction m)
  case 0
  then show ?case by simp
next
  case (Suc m)
  have "[1..int (Suc m)] = [1..int m] @ [int m + 1]"
    by (subst upto_rec2) (simp_all add: add.commute)
  with Suc show ?case by simp
qed

lemma Save_upload_Inr:
  assumes "Save_upload k a b io sched snap = Returns (Inr (n, results, staged))"
  shows "\<exists>written chunks. createTemp_err io = None \<and> copy_result io = Inr written
           \<and> minChunkSize a \<noteq> 0 \<and> n = noOfChunks (int written) (minChunkSize a) \<and> 0 \<le> n
           \<and> dispatchChunks (int written) (minChunkSize a) 0 1 = Some chunks
           \<and> blockUploader k a b io (int written) snap
                (if maxParallelChunkUploads a = 0 then [] else sched chunks) = Returns (results, staged)"
proof -
  from assms have t: "createTemp_err io = None"
    by (cases "createTemp_err io") (simp_all add: Save_upload_def)
  from assms t obtain written where w: "copy_result io = Inr written"
    by (cases "copy_result io") (simp_all add: Save_upload_def)
  from assms t w have c: "minChunkSize a \<noteq> 0"
    by (cases "minChunkSize a = 0") (simp_all add: Save_upload_def)
  from assms t w c have n0: "0 \<le> noOfChunks (int written) (minChunkSize a)"
    by (cases "noOfChunks (int written) (minChunkSize a) < 0")
       (simp_all add: Save_upload_def Let_def)
  from assms t w c n0 obtain chunks where
    d: "dispatchChunks (int written) (minChunkSize a) 0 1 = Some chunks"
    by (cases "dispatchChunks (int written) (minChunkSize a) 0 1")
       (simp_all add: Save_upload_def Let_def)
  let ?up = "blockUploader k a b io (int written) snap
                (if maxParallelChunkUploads a = 0 then [] else sched chunks)"
  have "n = noOfChunks (int written) (minChunkSize a) \<and> ?up = Returns (results, staged)"
  proof (cases ?up)
    case (Returns x)
    obtain rs st where x: "x = (rs, st)" by (cases x) auto
    have "Save_upload k a b io sched snap =
            Returns (Inr (noOfChunks (int written) (minChunkSize a), rs, st))"
      using t w c n0 d Returns x
      by (simp add: Save_upload_def Let_def split del: if_split)
    with assms Returns x show ?thesis by simp
  next
    case Panics
    have "Save_upload k a b io sched snap = Panics"
      using t w c n0 d Panics
      by (simp add: Save_upload_def Let_def split del: if_split)
    with assms show ?thesis by simp
  next
    case Blocks
    have "Save_upload k a b io sched snap = Blocks"
      using t w c n0 d Blocks
      by (simp add: Save_upload_def Let_def split del: if_split)
    with assms show ?thesis by simp
  qed
  with t w c n0 d show ?thesis by blast
qed

lemma dispatchChunks_cases:
  assumes d: "dispatchChunks (int w) c 0 1 = Some chunks"
  shows "chunks = map (\<lambda>j. \<lparr>offset = int j * c, chunk_size = c, chunk_id = int j + 1, attempt = 0\<rparr>)
                    [0..<nat (noOfChunks (int w) c)]
         \<and> (w = 0 \<or> 0 < c)"
proof (cases "w = 0")
  case True
  with d show ?thesis by (simp add: dispatchChunks_zero noOfChunks_zero)
next
  case False
  then have lt: "0 < int w" by simp
  with dispatchChunks_Some_pos[OF d] have c: "0 < c" by simp
  from d lt c show ?thesis unfolding dispatchChunks_pos[OF c] by (auto simp: add.commute)
qed

lemma dispatched_ids:
  assumes d: "dispatchChunks (int w) c 0 1 = Some chunks"
  shows "map (\<lambda>ch. go_quo (offset ch) (chunk_size ch) + 1) chunks = [1..noOfChunks (int w) c]
       \<and> (\<forall>ch\<in>set chunks. chunk_size ch = c \<and> go_quo (offset ch) (chunk_size ch) + 1 = chunk_id ch)"
proof (cases "w = 0")
  case True
  with d show ?thesis by (simp add: dispatchChunks_zero noOfChunks_zero)
next
  case False
  then have lt: "0 < int w" by simp
  with dispatchChunks_Some_pos[OF d] have c: "0 < c" by simp
  have n0: "0 \<le> noOfChunks (int w) c" using c by (intro noOfChunks_ge0) simp_all
  have q: "\<And>j. go_quo (int j * c) c = int j" using c by (simp add: go_quo_nonneg)
  from dispatchChunks_cases[OF d]
  have ch: "chunks = map (\<lambda>j. \<lparr>offset = int j * c, chunk_size = c, chunk_id = int j + 1, attempt = 0\<rparr>)
                    [0..<nat (noOfChunks (int w) c)]" by simp
  have "[1..noOfChunks (int w) c] = [1..int (nat (noOfChunks (int w) c))]" using n0 by simp
  also have "\<dots> = map (\<lambda>j. int j + 1) [0..<nat (noOfChunks (int w) c)]" by (rule upto_1_as_map)
  finally have u: "[1..noOfChunks (int w) c] = map (\<lambda>j. int j + 1) [0..<nat (noOfChunks (int w) c)]" .
  show ?thesis unfolding u by (subst (1 2) ch) (simp add: q o_def)
qed

lemma submset_same_length:
  "mset xs \<subseteq># mset ys \<Longrightarrow> length ys \<le> length xs \<Longrightarrow> mset xs = mset ys"
  by (metis size_mset mset_subset_size subset_mset.le_imp_less_or_eq not_less)


lemma blockUploader_eval:
  assumes stat: "stat_err io = None" and nz: "\<forall>c\<in>set cs. chunk_size c \<noteq> 0"
  shows "blockUploader k a b io fs snap cs =
     Returns
       (map (\<lambda>c. \<lparr>err = (case stageBlock_resp b (path_Join [adaptPrefix k snap (prefix a), SnapDir snap, SnapName snap])
                                 (blockID (go_quo (offset c) (chunk_size c) + 1)) of
                           Some e \<Rightarrow> Some (StageFailed (offset c) (path_Join [adaptPrefix k snap (prefix a), SnapDir snap, SnapName snap]) e)
                         | None \<Rightarrow> None),
                   chunk = c\<rparr>) cs,
        map (\<lambda>c. StageBlock (path_Join [adaptPrefix k snap (prefix a), SnapDir snap, SnapName snap])
                   (blockID (go_quo (offset c) (chunk_size c) + 1)) (offset c)
                   (if fs - offset c > chunk_size c then chunk_size c else fs - offset c)) cs)"
  using nz
proof (induction cs)
  case Nil
  then show ?case by simp
next
  case (Cons c cs)
  then have ih: "blockUploader k a b io fs snap cs =
     Returns
       (map (\<lambda>c. \<lparr>err = (case stageBlock_resp b (path_Join [adaptPrefix k snap (prefix a), SnapDir snap, SnapName snap])
                                 (blockID (go_quo (offset c) (chunk_size c) + 1)) of
                           Some e \<Rightarrow> Some (StageFailed (offset c) (path_Join [adaptPrefix k snap (prefix a), SnapDir snap, SnapName snap]) e)
                         | None \<Rightarrow> None),
                   chunk = c\<rparr>) cs,
        map (\<lambda>c. StageBlock (path_Join [adaptPrefix k snap (prefix a), SnapDir snap, SnapName snap])
                   (blockID (go_quo (offset c) (chunk_size c) + 1)) (offset c)
                   (if fs - offset c > chunk_size c then chunk_size c else fs - offset c)) cs)"
    and c: "chunk_size c \<noteq> 0" by simp_all
  have u: "uploadBlock k a b io fs snap (offset c) (chunk_size c) =
     Returns ((case stageBlock_resp b (path_Join [adaptPrefix k snap (prefix a), SnapDir snap, SnapName snap])
                                 (blockID (go_quo (offset c) (chunk_size c) + 1)) of
                           Some e \<Rightarrow> Some (StageFailed (offset c) (path_Join [adaptPrefix k snap (prefix a), SnapDir snap, SnapName snap]) e)
                         | None \<Rightarrow> None),
              [StageBlock (path_Join [adaptPrefix k snap (prefix a), SnapDir snap, SnapName snap])
                   (blockID (go_quo (offset c) (chunk_size c) + 1)) (offset c)
                   (if fs - offset c > chunk_size c then chunk_size c else fs - offset c)])"
    using stat c by (simp add: uploadBlock_def Let_def split: option.splits)
  show ?case by (simp add: u ih)
qed

lemma Save_upload_eval:
  assumes C: "0 < minChunkSize a" and t: "createTemp_err io = None"
    and w: "copy_result io = Inr S"
  shows "Save_upload k a b io sched snap =
     (case blockUploader k a b io (int S) snap
             (if maxParallelChunkUploads a = 0 then []
              else sched (map (\<lambda>j. \<lparr>offset = int j * minChunkSize a, chunk_size = minChunkSize a,
                                       chunk_id = int j + 1, attempt = 0\<rparr>)
                            [0..<nat (noOfChunks (int S) (minChunkSize a))])) of
        Returns (results, staged) \<Rightarrow>
          Returns (Inr (noOfChunks (int S) (minChunkSize a), results, staged))
      | Panics \<Rightarrow> Panics
      | Blocks \<Rightarrow> Blocks)"
proof -
  have n0: "\<not> noOfChunks (int S) (minChunkSize a) < 0"
    using noOfChunks_ge0[of "int S" "minChunkSize a"] C by simp
  have d: "dispatchChunks (int S) (minChunkSize a) 0 1 =
     Some (map (\<lambda>j. \<lparr>offset = int j * minChunkSize a, chunk_size = minChunkSize a,
                       chunk_id = int j + 1, attempt = 0\<rparr>)
             [0..<nat (noOfChunks (int S) (minChunkSize a))])"
  proof (cases "S = 0")
    case True
    then show ?thesis by (simp add: dispatchChunks_zero noOfChunks_zero)
  next
    case False
    then show ?thesis unfolding dispatchChunks_pos[OF C] by (simp add: add.commute)
  qed
  from C have c: "minChunkSize a \<noteq> 0" by simp
  show ?thesis
    using t w c n0
    by (simp add: Save_upload_def Let_def d split del: if_split cong: outcome.case_cong)
qed

lemma collect_returns_error:
  "collectChunkUploadError rs m = Some (Some y) \<Longrightarrow> y \<in> set rs \<and> err y \<noteq> None"
proof (induction rs m rule: collectChunkUploadError.induct)
  case (1 rs)
  then show ?case by simp
next
  case (2 n)
  then show ?case by simp
next
  case (3 r rs n)
  then show ?case by (cases "err r") auto
qed

lemma Save_cases:
  assumes u: "Save_upload k a b io sched snap = Returns (Inr (n, results, staged))"
    and s: "Save k a b io sched snap = Returns (r, calls)"
  shows "(calls = staged \<and> r \<noteq> None \<and> (\<exists>x\<in>set results. err x \<noteq> None))
       \<or> (calls = staged @ [CommitBlockList (path_Join [adaptPrefix k snap (prefix a), SnapDir snap, SnapName snap]) (map blockID [1..n])]
          \<and> collectChunkUploadError results (nat n) = Some None)"
proof (cases "collectChunkUploadError results (nat n)")
  case None
  with u s show ?thesis by (simp add: Save_def)
next
  case (Some x)
  show ?thesis
  proof (cases x)
    case None
    with Some u s show ?thesis
      by (auto simp: Save_def Let_def blockList_from_upto split: option.splits)
  next
    case (Some y)
    have "y \<in> set results \<and> err y \<noteq> None"
      using \<open>collectChunkUploadError results (nat n) = Some x\<close> Some
      by (auto dest: collect_returns_error)
    with \<open>collectChunkUploadError results (nat n) = Some x\<close> Some u s show ?thesis
      by (auto simp: Save_def)
  qed
qed

lemma dispatched_chunk:
  assumes "0 < C"
    and "c \<in> set (map (\<lambda>j. \<lparr>offset = int j * C, chunk_size = C, chunk_id = int j + 1, attempt = 0\<rparr>)
                     [0..<m])"
  shows "chunk_size c = C \<and> go_quo (offset c) (chunk_size c) + 1 = chunk_id c"
  using assms by (auto simp: go_quo_nonneg)

subsection \<open>Block identifiers\<close>

lemma of_char_lt_256: "(of_char c :: nat) < 256"
proof -
  have "(of_char c :: nat) mod 256 < 256" by simp
  then show ?thesis by (simp only: of_char_mod_256)
qed

lemma base64_alphabet_distinct: "distinct base64_alphabet"
  by (simp add: base64_alphabet_def)

lemma base64_alphabet_length: "length base64_alphabet = 64"
  by (simp add: base64_alphabet_def)

lemma base64_alphabet_no_pad: "CHR ''='' \<notin> set base64_alphabet"
  by (simp add: base64_alphabet_def)

lemma base64_char_inj: "i < 64 \<Longrightarrow> j < 64 \<Longrightarrow> base64_char i = base64_char j \<Longrightarrow> i = j"
  unfolding base64_char_def
  using base64_alphabet_distinct base64_alphabet_length
  by (simp add: nth_eq_iff_index_eq)

lemma base64_char_no_pad: "i < 64 \<Longrightarrow> base64_char i \<noteq> CHR ''=''"
  unfolding base64_char_def
  using base64_alphabet_no_pad base64_alphabet_length
  by (metis nth_mem)

lemma qr_eq:
  fixes q r q' r' m :: nat
  assumes "r < m" "r' < m" "q * m + r = q' * m + r'"
  shows "q = q' \<and> r = r'"
proof -
  have "(q * m + r) div m = q" "(q * m + r) mod m = r" using assms(1) by simp_all
  moreover have "(q' * m + r') div m = q'" "(q' * m + r') mod m = r'" using assms(2) by simp_all
  ultimately show ?thesis using assms(3) by simp
qed

lemma div_mod_eq:
  fixes a a' m :: nat
  assumes "a div m = a' div m" "a mod m = a' mod m"
  shows "a = a'"
  using assms by (metis div_mult_mod_eq)

lemma sextets1:
  fixes a a' :: nat
  assumes "a div 4 = a' div 4" "(a mod 4) * 16 = (a' mod 4) * 16"
  shows "a = a'"
  using assms by (intro div_mod_eq[of a 4 a']) simp_all

lemma sextets2:
  fixes a a' b b' :: nat
  assumes "a div 4 = a' div 4" "(a mod 4) * 16 + b div 16 = (a' mod 4) * 16 + b' div 16"
    and "(b mod 16) * 4 = (b' mod 16) * 4" "b < 256" "b' < 256"
  shows "a = a' \<and> b = b'"
proof -
  have "b div 16 < 16" "b' div 16 < 16" using assms(4,5) by simp_all
  from qr_eq[OF this assms(2)] have m: "a mod 4 = a' mod 4" "b div 16 = b' div 16" by simp_all
  from assms(3) have "b mod 16 = b' mod 16" by simp
  with m assms(1) show ?thesis by (auto intro: div_mod_eq)
qed

lemma sextets3:
  fixes a a' b b' c c' :: nat
  assumes "a div 4 = a' div 4" "(a mod 4) * 16 + b div 16 = (a' mod 4) * 16 + b' div 16"
    and "(b mod 16) * 4 + c div 64 = (b' mod 16) * 4 + c' div 64" "c mod 64 = c' mod 64"
    and "b < 256" "b' < 256" "c < 256" "c' < 256"
  shows "a = a' \<and> b = b' \<and> c = c'"
proof -
  have "b div 16 < 16" "b' div 16 < 16" using assms(5,6) by simp_all
  from qr_eq[OF this assms(2)] have m: "a mod 4 = a' mod 4" "b div 16 = b' div 16" by simp_all
  have "c div 64 < 4" "c' div 64 < 4" using assms(7,8) by simp_all
  from qr_eq[OF this assms(3)] have m2: "b mod 16 = b' mod 16" "c div 64 = c' div 64" by simp_all
  with m assms(1,4) show ?thesis by (auto intro: div_mod_eq)
qed

lemma sextet_b1: "((a::nat) mod 4) * 16 < 64"
proof -
  have "a mod 4 < 4" by simp
  then show ?thesis by linarith
qed

lemma sextet_b2: "(b::nat) < 256 \<Longrightarrow> ((a::nat) mod 4) * 16 + b div 16 < 64"
proof -
  assume "b < 256"
  then have "a mod 4 < 4" "b div 16 < 16" by simp_all
  then show ?thesis by linarith
qed

lemma sextet_b3: "((b::nat) mod 16) * 4 < 64"
proof -
  have "b mod 16 < 16" by simp
  then show ?thesis by linarith
qed

lemma sextet_b4: "(c::nat) < 256 \<Longrightarrow> ((b::nat) mod 16) * 4 + c div 64 < 64"
proof -
  assume "c < 256"
  then have "b mod 16 < 16" "c div 64 < 4" by simp_all
  then show ?thesis by linarith
qed

lemma sextet_first: "(a::nat) < 256 \<Longrightarrow> a div 4 < 64"
  by simp

lemma base64_encode_inj:
  "\<forall>x\<in>set xs. x < 256 \<Longrightarrow> \<forall>y\<in>set ys. y < 256 \<Longrightarrow>
     base64_encode xs = base64_encode ys \<Longrightarrow> xs = ys"
proof (induction xs arbitrary: ys rule: base64_encode.induct)
  case 1
  then show ?case by (cases ys rule: base64_encode.cases) simp_all
next
  case (2 a)
  show ?case
  proof (cases ys rule: base64_encode.cases)
    case 1
    with 2 show ?thesis by simp
  next
    case (2 a')
    with "2.prems" have e: "base64_char (a div 4) = base64_char (a' div 4)"
      "base64_char ((a mod 4) * 16) = base64_char ((a' mod 4) * 16)"
      and lt: "a < 256" "a' < 256"
      by simp_all
    have "a div 4 = a' div 4"
      using lt e(1) by (intro base64_char_inj sextet_first)
    moreover have "(a mod 4) * 16 = (a' mod 4) * 16"
      using e(2) by (intro base64_char_inj sextet_b1)
    ultimately have "a = a'" by (rule sextets1)
    then show ?thesis using 2 by simp
  next
    case (3 a' b')
    from "2.prems"(3) have "base64_encode [a] = base64_encode ys" .
    then have "base64_encode [a] ! 2 = base64_encode ys ! 2" by simp
    then have "CHR ''='' = base64_char ((b' mod 16) * 4)" unfolding \<open>ys = _\<close> by simp
    moreover have "(b' mod 16) * 4 < 64" by (rule sextet_b3)
    ultimately show ?thesis using base64_char_no_pad by metis
  next
    case (4 a' b' c' rest)
    from "2.prems"(3) have "base64_encode [a] = base64_encode ys" .
    then have "base64_encode [a] ! 3 = base64_encode ys ! 3" by simp
    then have "CHR ''='' = base64_char (c' mod 64)" unfolding \<open>ys = _\<close> by simp
    moreover have "c' mod 64 < 64" by simp
    ultimately show ?thesis using base64_char_no_pad by metis
  qed
next
  case (3 a b)
  show ?case
  proof (cases ys rule: base64_encode.cases)
    case 1
    with 3 show ?thesis by simp
  next
    case (2 a')
    from "3.prems"(3) have "base64_encode [a, b] = base64_encode ys" .
    then have "base64_encode [a, b] ! 2 = base64_encode ys ! 2" by simp
    then have "base64_char ((b mod 16) * 4) = CHR ''=''" unfolding \<open>ys = _\<close> by simp
    moreover have "(b mod 16) * 4 < 64" by (rule sextet_b3)
    ultimately show ?thesis using base64_char_no_pad by metis
  next
    case (3 a' b')
    with "3.prems" have e: "base64_char (a div 4) = base64_char (a' div 4)"
      "base64_char ((a mod 4) * 16 + b div 16) = base64_char ((a' mod 4) * 16 + b' div 16)"
      "base64_char ((b mod 16) * 4) = base64_char ((b' mod 16) * 4)"
      and lt: "a < 256" "a' < 256" "b < 256" "b' < 256"
      by simp_all
    have "a div 4 = a' div 4"
      using lt e(1) by (intro base64_char_inj sextet_first)
    moreover have "(a mod 4) * 16 + b div 16 = (a' mod 4) * 16 + b' div 16"
      using lt e(2) by (intro base64_char_inj sextet_b2) simp_all
    moreover have "(b mod 16) * 4 = (b' mod 16) * 4"
      using lt e(3) by (intro base64_char_inj sextet_b3)
    ultimately have "a = a' \<and> b = b'" using lt by (intro sextets2) simp_all
    then show ?thesis using 3 by simp
  next
    case (4 a' b' c' rest)
    from "3.prems"(3) have "base64_encode [a, b] = base64_encode ys" .
    then have "base64_encode [a, b] ! 3 = base64_encode ys ! 3" by simp
    then have "CHR ''='' = base64_char (c' mod 64)" unfolding \<open>ys = _\<close> by simp
    moreover have "c' mod 64 < 64" by simp
    ultimately show ?thesis using base64_char_no_pad by metis
  qed
next
  case (4 a b c rest)
  have c64: "c mod 64 < 64" by simp
  show ?case
  proof (cases ys rule: base64_encode.cases)
    case 1
    with 4 show ?thesis by simp
  next
    case (2 a')
    from "4.prems"(3) have "base64_encode (a # b # c # rest) = base64_encode ys" .
    then have "base64_encode (a # b # c # rest) ! 3 = base64_encode ys ! 3" by simp
    then have "base64_char (c mod 64) = CHR ''=''" unfolding \<open>ys = _\<close> by simp
    with c64 show ?thesis using base64_char_no_pad by metis
  next
    case (3 a' b')
    from "4.prems"(3) have "base64_encode (a # b # c # rest) = base64_encode ys" .
    then have "base64_encode (a # b # c # rest) ! 3 = base64_encode ys ! 3" by simp
    then have "base64_char (c mod 64) = CHR ''=''" unfolding \<open>ys = _\<close> by simp
    with c64 show ?thesis using base64_char_no_pad by metis
  next
    case (4 a' b' c' rest')
    with "4.prems" have e: "base64_char (a div 4) = base64_char (a' div 4)"
      "base64_char ((a mod 4) * 16 + b div 16) = base64_char ((a' mod 4) * 16 + b' div 16)"
      "base64_char ((b mod 16) * 4 + c div 64) = base64_char ((b' mod 16) * 4 + c' div 64)"
      "base64_char (c mod 64) = base64_char (c' mod 64)"
      and r: "base64_encode rest = base64_encode rest'"
      and lt: "a < 256" "a' < 256" "b < 256" "b' < 256" "c < 256" "c' < 256"
      and ltr: "\<forall>x\<in>set rest. x < 256" "\<forall>y\<in>set rest'. y < 256"
      by simp_all
    have "a div 4 = a' div 4"
      using lt e(1) by (intro base64_char_inj sextet_first)
    moreover have "(a mod 4) * 16 + b div 16 = (a' mod 4) * 16 + b' div 16"
      using lt e(2) by (intro base64_char_inj sextet_b2) simp_all
    moreover have "(b mod 16) * 4 + c div 64 = (b' mod 16) * 4 + c' div 64"
      using lt e(3) by (intro base64_char_inj sextet_b4) simp_all
    moreover have "c mod 64 = c' mod 64"
      using e(4) by (intro base64_char_inj) simp_all
    ultimately have "a = a' \<and> b = b' \<and> c = c'" using lt by (intro sextets3) simp_all
    moreover from "4.IH"[OF ltr r] have "rest = rest'" .
    ultimately show ?thesis using 4 by simp
  qed
qed

lemma base64_EncodeToString_inj:
  "base64_EncodeToString s = base64_EncodeToString t \<Longrightarrow> s = t"
proof -
  assume "base64_EncodeToString s = base64_EncodeToString t"
  then have "base64_encode (map of_char s) = base64_encode (map of_char t)"
    by (simp add: base64_EncodeToString_def)
  then have "map (of_char :: char \<Rightarrow> nat) s = map of_char t"
    by (intro base64_encode_inj) (auto simp: of_char_lt_256)
  then show "s = t" by (simp add: inj_map_eq_map[OF inj_of_char])
qed


lemma of_char_digit_char: "d < 10 \<Longrightarrow> (of_char (digit_char d) :: nat) = 48 + d"
  by (simp add: digit_char_def)

lemma decimal_value_snoc:
  "decimal_value (s @ [ch]) = 10 * decimal_value s + (of_char ch - 48)"
  by (simp add: decimal_value_def)

lemma decimal_value_decimal: "decimal_value (decimal n) = n"
proof (induction n rule: decimal.induct)
  case (1 n)
  show ?case
  proof (cases "n < 10")
    case True
    then show ?thesis
      by (subst decimal.simps) (simp add: decimal_value_def of_char_digit_char)
  next
    case False
    have d: "n mod 10 < 10" by simp
    from False 1 have "decimal_value (decimal (n div 10)) = n div 10" by simp
    with False show ?thesis
      by (subst decimal.simps) (simp add: decimal_value_snoc of_char_digit_char[OF d])
  qed
qed

lemma decimal_value_zeros: "decimal_value (replicate k CHR ''0'' @ s) = decimal_value s"
proof -
  have "foldl (\<lambda>acc ch. 10 * acc + (of_char ch - 48)) (0::nat) (replicate k CHR ''0'') = 0"
    by (induction k) simp_all
  then show ?thesis by (simp add: decimal_value_def)
qed

lemma sprintf_010d_value: "0 \<le> p \<Longrightarrow> decimal_value (sprintf_010d p) = nat p"
  by (simp add: sprintf_010d_def zero_pad_def decimal_value_zeros decimal_value_decimal)

lemma sprintf_010d_inj: "0 \<le> p \<Longrightarrow> 0 \<le> q \<Longrightarrow> sprintf_010d p = sprintf_010d q \<Longrightarrow> p = q"
  by (metis sprintf_010d_value nat_eq_iff2 int_nat_eq)

lemma blockID_inj: "0 \<le> p \<Longrightarrow> 0 \<le> q \<Longrightarrow> blockID p = blockID q \<Longrightarrow> p = q"
  unfolding blockID_def by (blast dest: base64_EncodeToString_inj sprintf_010d_inj)

lemma blockID_distinct: "distinct (map blockID [1..n])"
proof -
  have "inj_on blockID (set [1..n])"
    by (rule inj_onI) (auto intro: blockID_inj)
  then show ?thesis by (simp add: distinct_map)
qed

lemma decimal_length: "0 < k \<Longrightarrow> n < 10 ^ k \<Longrightarrow> length (decimal n) \<le> k"
proof (induction k arbitrary: n)
  case 0
  then show ?case by simp
next
  case (Suc k)
  show ?case
  proof (cases "n < 10")
    case True
    then show ?thesis by (subst decimal.simps) simp
  next
    case False
    then have k: "0 < k" using Suc.prems by (cases k) auto
    from Suc.prems have "n div 10 < 10 ^ k"
      by (simp add: less_mult_imp_div_less mult.commute)
    from Suc.IH[OF k this] False show ?thesis by (subst decimal.simps) simp
  qed
qed

lemma decimal_nonempty: "decimal n \<noteq> []"
  by (subst decimal.simps) simp

lemma sprintf_010d_width:
  assumes "0 \<le> p" "p < 10 ^ 10"
  shows "length (sprintf_010d p) = 10"
proof -
  from assms have "nat p < 10 ^ 10" by (simp add: nat_less_iff)
  then have "length (decimal (nat p)) \<le> 10" by (intro decimal_length) simp_all
  with assms show ?thesis by (simp add: sprintf_010d_def zero_pad_def)
qed


subsection \<open>A successful Save\<close>

lemma Save_ok_unfold:
  assumes ok: "Save k a b io sched snap = Returns (None, calls)"
  shows "\<exists>n results staged. Save_upload k a b io sched snap = Returns (Inr (n, results, staged))
           \<and> collectChunkUploadError results (nat n) = Some None
           \<and> calls = staged @ [CommitBlockList
                 (path_Join [adaptPrefix k snap (prefix a), SnapDir snap, SnapName snap])
                 (blockList_from 1 n)]"
  using ok
  by (auto simp: Save_def Let_def
      split: outcome.splits sum.splits prod.splits option.splits)

lemma Save_ok_parts:
  assumes sched: "\<forall>cs. mset (sched cs) \<subseteq># mset cs"
    and ok: "Save k a b io sched snap = Returns (None, calls)"
  shows "\<exists>written chunks. copy_result io = Inr written
     \<and> dispatchChunks (int written) (minChunkSize a) 0 1 = Some chunks
     \<and> mset (sched chunks) = mset chunks
     \<and> calls = map (\<lambda>c. StageBlock
                    (path_Join [adaptPrefix k snap (prefix a), SnapDir snap, SnapName snap])
                    (blockID (go_quo (offset c) (chunk_size c) + 1)) (offset c)
                    (if int written - offset c > chunk_size c then chunk_size c
                     else int written - offset c)) (sched chunks)
               @ [CommitBlockList
                    (path_Join [adaptPrefix k snap (prefix a), SnapDir snap, SnapName snap])
                    (map blockID [1..noOfChunks (int written) (minChunkSize a)])]"
proof -
  from Save_ok_unfold[OF ok] obtain n results staged where
    up: "Save_upload k a b io sched snap = Returns (Inr (n, results, staged))"
    and co: "collectChunkUploadError results (nat n) = Some None"
    and ca: "calls = staged @ [CommitBlockList
                 (path_Join [adaptPrefix k snap (prefix a), SnapDir snap, SnapName snap])
                 (blockList_from 1 n)]"
    by blast
  from Save_upload_Inr[OF up] obtain written chunks where
    cp: "copy_result io = Inr written"
    and n: "n = noOfChunks (int written) (minChunkSize a)" "0 \<le> n"
    and d: "dispatchChunks (int written) (minChunkSize a) 0 1 = Some chunks"
    and u: "blockUploader k a b io (int written) snap
                (if maxParallelChunkUploads a = 0 then [] else sched chunks) = Returns (results, staged)"
    by blast
  let ?done = "if maxParallelChunkUploads a = 0 then [] else sched chunks"
  from blockUploader_Returns[OF u] have m: "map chunk results = ?done" by simp
  have l1: "length results = length ?done" using m by (metis length_map)
  have l2: "length ?done \<le> length (sched chunks)" by simp
  have l3: "length (sched chunks) \<le> length chunks"
    using sched by (metis size_mset size_mset_mono)
  have l4: "length chunks = nat n" using dispatchChunks_length[OF d] n by simp
  from collect_no_error[OF co] have l5: "nat n \<le> length results"
    and ok5: "\<forall>r\<in>set (take (nat n) results). err r = None" by simp_all
  from l1 l2 l3 l4 l5 have len: "length results = nat n" "length (sched chunks) = length chunks"
    "length ?done = length (sched chunks)" by simp_all
  from ok5 len(1) have allok: "\<forall>r\<in>set results. err r = None" by simp
  have dn: "?done = sched chunks"
  proof (cases "maxParallelChunkUploads a = 0")
    case True
    with len(3) show ?thesis by simp
  next
    case False
    then show ?thesis by simp
  qed
  have ms: "mset (sched chunks) = mset chunks"
    using sched len(2) by (intro submset_same_length) simp_all
  from blockUploader_ok[OF u allok] dn
  have st: "staged = map (\<lambda>c. StageBlock
                    (path_Join [adaptPrefix k snap (prefix a), SnapDir snap, SnapName snap])
                    (blockID (go_quo (offset c) (chunk_size c) + 1)) (offset c)
                    (if int written - offset c > chunk_size c then chunk_size c
                     else int written - offset c)) (sched chunks)"
    by simp
  from cp d ms ca st n(1) show ?thesis
    by (simp add: blockList_from_upto)
qed


lemma sched_empty: "\<forall>cs. mset (sched cs) \<subseteq># mset cs \<Longrightarrow> sched [] = []"
proof -
  assume "\<forall>cs. mset (sched cs) \<subseteq># mset cs"
  then have "mset (sched []) \<subseteq># mset []" by blast
  then show ?thesis by simp
qed

lemma Save_empty:
  assumes c: "minChunkSize a \<noteq> 0" and t: "createTemp_err io = None"
    and w: "copy_result io = Inr 0" and sched: "\<forall>cs. mset (sched cs) \<subseteq># mset cs"
  shows "Save k a b io sched snap =
     Returns ((case commitBlockList_resp b
                      (path_Join [adaptPrefix k snap (prefix a), SnapDir snap, SnapName snap]) [] of
                 Some e \<Rightarrow> Some (BlocklistFailed e) | None \<Rightarrow> None),
              [CommitBlockList
                 (path_Join [adaptPrefix k snap (prefix a), SnapDir snap, SnapName snap]) []])"
proof -
  have u: "Save_upload k a b io sched snap = Returns (Inr (0, [], []))"
    using c t w sched_empty[OF sched]
    by (simp add: Save_upload_def noOfChunks_zero dispatchChunks_zero)
  have bl: "blockList_from 1 0 = []" by (simp add: blockList_from_upto)
  show ?thesis
    by (simp add: Save_def u bl Let_def split: option.splits)
qed

lemmas save_example_simps =
  pkg_example_def store_example_def snap_example_def backend_ok_def backend_fail2_def
  io_example_def

subsection \<open>A failed chunk\<close>

text \<open>
  Claim C1. The workers upload only chunks that were sent to them, each at most once.
  Whenever the upload phase of a Save ends with a result that carries an error, Save
  returns an error, the error of a result that carries one, together with the chunk's
  sequence number and offset, and the backend calls of that Save are the calls of the
  workers, none of which is \<open>CommitBlockList\<close>.
\<close>

theorem Save_chunk_error_no_commit:
  assumes sched: "\<forall>cs. mset (sched cs) \<subseteq># mset cs"
    and up: "Save_upload k a b io sched snap = Returns (Inr (n, results, staged))"
    and bad: "\<exists>r\<in>set results. err r \<noteq> None"
  shows "\<exists>r\<in>set results. err r \<noteq> None
           \<and> Save k a b io sched snap =
               Returns (Some (ChunkUploadFailed (chunk_id (chunk r)) (offset (chunk r)) (err r)), staged)
           \<and> (\<forall>blob l. CommitBlockList blob l \<notin> set staged)"
proof -
  from Save_upload_Inr[OF up] obtain written chunks where
    n: "n = noOfChunks (int written) (minChunkSize a)" "0 \<le> n"
    and d: "dispatchChunks (int written) (minChunkSize a) 0 1 = Some chunks"
    and u: "blockUploader k a b io (int written) snap
                (if maxParallelChunkUploads a = 0 then [] else sched chunks) = Returns (results, staged)"
    by blast
  from blockUploader_Returns[OF u]
  have m: "map chunk results = (if maxParallelChunkUploads a = 0 then [] else sched chunks)"
    and st: "\<forall>call\<in>set staged. \<exists>blob bid off sz. call = StageBlock blob bid off sz"
    by simp_all
  have "length results = length (if maxParallelChunkUploads a = 0 then [] else sched chunks)"
    using m by (metis length_map)
  also have "\<dots> \<le> length (sched chunks)" by simp
  also have "\<dots> \<le> length chunks"
    using sched by (metis size_mset size_mset_mono)
  also have "\<dots> = nat n" using dispatchChunks_length[OF d] n by simp
  finally have len: "length results \<le> nat n" .
  from collect_finds_error[OF bad len] obtain r where
    r: "r \<in> set results" "err r \<noteq> None" "collectChunkUploadError results (nat n) = Some (Some r)"
    by blast
  have sv: "Save k a b io sched snap =
          Returns (Some (ChunkUploadFailed (chunk_id (chunk r)) (offset (chunk r)) (err r)), staged)"
    using up r(3) by (simp add: Save_def)
  have nc: "\<forall>blob l. CommitBlockList blob l \<notin> set staged"
    using st by auto
  from r(1,2) sv nc show ?thesis by blast
qed


theorem Save_chunk_error_no_commit_witness:
  "(\<forall>cs::chunk list. mset (rev cs) \<subseteq># mset cs)
   \<and> Save_upload pkg_example store_example backend_fail2 (io_example 10) rev snap_example =
       Returns (Inr (3,
         [\<lparr>err = None, chunk = \<lparr>offset = 8, chunk_size = 4, chunk_id = 3, attempt = 0\<rparr>\<rparr>,
          \<lparr>err = Some (StageFailed 4 ''etcd/v2/Backup-1/Full-0-10-1'' (SDKError ''timeout'')),
             chunk = \<lparr>offset = 4, chunk_size = 4, chunk_id = 2, attempt = 0\<rparr>\<rparr>,
          \<lparr>err = None, chunk = \<lparr>offset = 0, chunk_size = 4, chunk_id = 1, attempt = 0\<rparr>\<rparr>],
         [StageBlock ''etcd/v2/Backup-1/Full-0-10-1'' ''MDAwMDAwMDAwMw=='' 8 2,
          StageBlock ''etcd/v2/Backup-1/Full-0-10-1'' ''MDAwMDAwMDAwMg=='' 4 4,
          StageBlock ''etcd/v2/Backup-1/Full-0-10-1'' ''MDAwMDAwMDAwMQ=='' 0 4]))
   \<and> Save pkg_example store_example backend_fail2 (io_example 10) rev snap_example =
       Returns (Some (ChunkUploadFailed 2 4
                  (Some (StageFailed 4 ''etcd/v2/Backup-1/Full-0-10-1'' (SDKError ''timeout'')))),
         [StageBlock ''etcd/v2/Backup-1/Full-0-10-1'' ''MDAwMDAwMDAwMw=='' 8 2,
          StageBlock ''etcd/v2/Backup-1/Full-0-10-1'' ''MDAwMDAwMDAwMg=='' 4 4,
          StageBlock ''etcd/v2/Backup-1/Full-0-10-1'' ''MDAwMDAwMDAwMQ=='' 0 4])"
proof -
  let ?results =
        "[\<lparr>err = None, chunk = \<lparr>offset = 8, chunk_size = 4, chunk_id = 3, attempt = 0\<rparr>\<rparr>,
          \<lparr>err = Some (StageFailed 4 ''etcd/v2/Backup-1/Full-0-10-1'' (SDKError ''timeout'')),
             chunk = \<lparr>offset = 4, chunk_size = 4, chunk_id = 2, attempt = 0\<rparr>\<rparr>,
          \<lparr>err = None, chunk = \<lparr>offset = 0, chunk_size = 4, chunk_id = 1, attempt = 0\<rparr>\<rparr>]"
  let ?staged =
        "[StageBlock ''etcd/v2/Backup-1/Full-0-10-1'' ''MDAwMDAwMDAwMw=='' 8 2,
          StageBlock ''etcd/v2/Backup-1/Full-0-10-1'' ''MDAwMDAwMDAwMg=='' 4 4,
          StageBlock ''etcd/v2/Backup-1/Full-0-10-1'' ''MDAwMDAwMDAwMQ=='' 0 4]"
  have s: "\<forall>cs::chunk list. mset (rev cs) \<subseteq># mset cs" by simp
  have u: "Save_upload pkg_example store_example backend_fail2 (io_example 10) rev snap_example =
       Returns (Inr (3, ?results, ?staged))"
    by code_simp
  have b: "\<exists>r\<in>set ?results. err r \<noteq> None" by simp
  from Save_chunk_error_no_commit[OF s u b]
  have "Save pkg_example store_example backend_fail2 (io_example 10) rev snap_example =
       Returns (Some (ChunkUploadFailed 2 4
                  (Some (StageFailed 4 ''etcd/v2/Backup-1/Full-0-10-1'' (SDKError ''timeout'')))),
         ?staged)"
    by simp
  with s u show ?thesis by simp
qed

subsection \<open>The number of chunks\<close>

text \<open>
  Claim C4. For a stream of \<open>S\<close> bytes and a chunk size \<open>C > 0\<close>, the number of chunks
  that Save computes is the ceiling of \<open>S / C\<close>; the loop that sends the chunks ends and
  sends exactly that many, the one with sequence number \<open>j + 1\<close> at offset \<open>j * C\<close>; a
  Save that reaches its collector was given that number. For an empty stream Save makes
  no \<open>StageBlock\<close> call and exactly one backend call, a \<open>CommitBlockList\<close> with the empty
  list, and returns what that call answers. With at least one worker, a local file that
  can be examined and workers that upload only chunks sent to them, each at most once,
  the upload phase of Save ends with the ceiling of \<open>S / C\<close> as number of chunks, with
  one result for each chunk that the workers took among those at the offsets \<open>j * C\<close>,
  and with one \<open>StageBlock\<close> call for each of them, at its offset and with the identifier
  of its sequence number, of \<open>C\<close> bytes or of what is left of the file. The backend calls
  of a Save that returns are these \<open>StageBlock\<close> calls, alone when Save returns the
  error of a chunk, and otherwise followed by one \<open>CommitBlockList\<close> of as many
  identifiers as there are chunks; in this case every chunk at an offset \<open>j * C\<close> below
  \<open>S\<close> was staged exactly once.
\<close>

theorem Save_chunk_arithmetic:
  assumes C: "0 < C"
  shows "noOfChunks (int S) C = \<lceil>real S / real_of_int C\<rceil>
     \<and> dispatchChunks (int S) C 0 1 =
         Some (map (\<lambda>j. \<lparr>offset = int j * C, chunk_size = C, chunk_id = int j + 1, attempt = 0\<rparr>)
                 [0..<nat \<lceil>real S / real_of_int C\<rceil>])
     \<and> (minChunkSize a = C \<and> copy_result io = Inr S
          \<and> Save_upload k a b io sched snap = Returns (Inr (n, results, staged))
         \<longrightarrow> n = \<lceil>real S / real_of_int C\<rceil>)
     \<and> (minChunkSize a = C \<and> createTemp_err io = None \<and> copy_result io = Inr 0
          \<and> (\<forall>cs. mset (sched cs) \<subseteq># mset cs)
         \<longrightarrow> Save k a b io sched snap =
               Returns ((case commitBlockList_resp b (path_Join [adaptPrefix k snap (prefix a), SnapDir snap, SnapName snap]) [] of
                           Some e \<Rightarrow> Some (BlocklistFailed e)
                         | None \<Rightarrow> None),
                        [CommitBlockList (path_Join [adaptPrefix k snap (prefix a), SnapDir snap, SnapName snap]) []]))
     \<and> (minChunkSize a = C \<and> createTemp_err io = None \<and> copy_result io = Inr S
          \<and> stat_err io = None \<and> 0 < maxParallelChunkUploads a
          \<and> (\<forall>cs. mset (sched cs) \<subseteq># mset cs)
         \<longrightarrow> Save_upload k a b io sched snap =
               Returns (Inr (\<lceil>real S / real_of_int C\<rceil>,
                 map (\<lambda>c. \<lparr>err = (case stageBlock_resp b (path_Join [adaptPrefix k snap (prefix a), SnapDir snap, SnapName snap])
                                          (blockID (chunk_id c)) of
                                   Some e \<Rightarrow>
                                     Some (StageFailed (offset c) (path_Join [adaptPrefix k snap (prefix a), SnapDir snap, SnapName snap]) e)
                                 | None \<Rightarrow> None),
                           chunk = c\<rparr>)
                   (sched (map (\<lambda>j. \<lparr>offset = int j * C, chunk_size = C, chunk_id = int j + 1, attempt = 0\<rparr>)
                            [0..<nat \<lceil>real S / real_of_int C\<rceil>])),
                 map (\<lambda>c. StageBlock (path_Join [adaptPrefix k snap (prefix a), SnapDir snap, SnapName snap])
                           (blockID (chunk_id c)) (offset c)
                           (if int S - offset c > C then C else int S - offset c))
                   (sched (map (\<lambda>j. \<lparr>offset = int j * C, chunk_size = C, chunk_id = int j + 1, attempt = 0\<rparr>)
                            [0..<nat \<lceil>real S / real_of_int C\<rceil>]))))
           \<and> (\<forall>r calls. Save k a b io sched snap = Returns (r, calls) \<longrightarrow>
                 (calls =
                    map (\<lambda>c. StageBlock (path_Join [adaptPrefix k snap (prefix a), SnapDir snap, SnapName snap])
                              (blockID (chunk_id c)) (offset c)
                              (if int S - offset c > C then C else int S - offset c))
                      (sched (map (\<lambda>j. \<lparr>offset = int j * C, chunk_size = C, chunk_id = int j + 1, attempt = 0\<rparr>)
                               [0..<nat \<lceil>real S / real_of_int C\<rceil>]))
                  \<and> r \<noteq> None)
               \<or> (calls =
                    map (\<lambda>c. StageBlock (path_Join [adaptPrefix k snap (prefix a), SnapDir snap, SnapName snap])
                              (blockID (chunk_id c)) (offset c)
                              (if int S - offset c > C then C else int S - offset c))
                      (sched (map (\<lambda>j. \<lparr>offset = int j * C, chunk_size = C, chunk_id = int j + 1, attempt = 0\<rparr>)
                               [0..<nat \<lceil>real S / real_of_int C\<rceil>]))
                    @ [CommitBlockList (path_Join [adaptPrefix k snap (prefix a), SnapDir snap, SnapName snap])
                         (map blockID [1..\<lceil>real S / real_of_int C\<rceil>])]
                  \<and> mset (sched (map (\<lambda>j. \<lparr>offset = int j * C, chunk_size = C, chunk_id = int j + 1, attempt = 0\<rparr>)
                                 [0..<nat \<lceil>real S / real_of_int C\<rceil>]))
                    = mset (map (\<lambda>j. \<lparr>offset = int j * C, chunk_size = C, chunk_id = int j + 1, attempt = 0\<rparr>)
                              [0..<nat \<lceil>real S / real_of_int C\<rceil>]))))"
proof -
  have n: "noOfChunks (int S) C = \<lceil>real S / real_of_int C\<rceil>"
    using noOfChunks_ceiling[of "int S" C] C by simp
  have d: "dispatchChunks (int S) C 0 1 =
         Some (map (\<lambda>j. \<lparr>offset = int j * C, chunk_size = C, chunk_id = int j + 1, attempt = 0\<rparr>)
                  [0..<nat \<lceil>real S / real_of_int C\<rceil>])"
  proof (cases "S = 0")
    case True
    then show ?thesis by (simp add: dispatchChunks_zero)
  next
    case False
    then show ?thesis
      unfolding dispatchChunks_pos[OF C] n[symmetric] by (simp add: add.commute)
  qed
  have u: "minChunkSize a = C \<and> copy_result io = Inr S
          \<and> Save_upload k a b io sched snap = Returns (Inr (n, results, staged))
         \<longrightarrow> n = \<lceil>real S / real_of_int C\<rceil>" for n results staged
  proof
    assume h: "minChunkSize a = C \<and> copy_result io = Inr S
          \<and> Save_upload k a b io sched snap = Returns (Inr (n, results, staged))"
    then have "Save_upload k a b io sched snap = Returns (Inr (n, results, staged))" by simp
    from Save_upload_Inr[OF this] h have "n = noOfChunks (int S) C" by auto
    with n show "n = \<lceil>real S / real_of_int C\<rceil>" by simp
  qed
  have e: "minChunkSize a = C \<and> createTemp_err io = None \<and> copy_result io = Inr 0
          \<and> (\<forall>cs. mset (sched cs) \<subseteq># mset cs)
         \<longrightarrow> Save k a b io sched snap =
               Returns ((case commitBlockList_resp b (path_Join [adaptPrefix k snap (prefix a), SnapDir snap, SnapName snap]) [] of
                           Some e \<Rightarrow> Some (BlocklistFailed e) | None \<Rightarrow> None),
                        [CommitBlockList (path_Join [adaptPrefix k snap (prefix a), SnapDir snap, SnapName snap]) []])"
  proof
    assume h: "minChunkSize a = C \<and> createTemp_err io = None \<and> copy_result io = Inr 0
          \<and> (\<forall>cs. mset (sched cs) \<subseteq># mset cs)"
    with C have "minChunkSize a \<noteq> 0" by simp
    from Save_empty[OF this] h show "Save k a b io sched snap =
               Returns ((case commitBlockList_resp b (path_Join [adaptPrefix k snap (prefix a), SnapDir snap, SnapName snap]) [] of
                           Some e \<Rightarrow> Some (BlocklistFailed e) | None \<Rightarrow> None),
                        [CommitBlockList (path_Join [adaptPrefix k snap (prefix a), SnapDir snap, SnapName snap]) []])"
      by blast
  qed
  have f: "minChunkSize a = C \<and> createTemp_err io = None \<and> copy_result io = Inr S
          \<and> stat_err io = None \<and> 0 < maxParallelChunkUploads a
          \<and> (\<forall>cs. mset (sched cs) \<subseteq># mset cs)
         \<longrightarrow> Save_upload k a b io sched snap = Returns (Inr (\<lceil>real S / real_of_int C\<rceil>, (map (\<lambda>c. \<lparr>err = (case stageBlock_resp b (path_Join [adaptPrefix k snap (prefix a), SnapDir snap, SnapName snap]) (blockID (chunk_id c)) of
                               Some e \<Rightarrow> Some (StageFailed (offset c) (path_Join [adaptPrefix k snap (prefix a), SnapDir snap, SnapName snap]) e)
                             | None \<Rightarrow> None),
                       chunk = c\<rparr>)
               (sched (map (\<lambda>j. \<lparr>offset = int j * C, chunk_size = C, chunk_id = int j + 1, attempt = 0\<rparr>)
                  [0..<nat \<lceil>real S / real_of_int C\<rceil>]))), (map (\<lambda>c. StageBlock (path_Join [adaptPrefix k snap (prefix a), SnapDir snap, SnapName snap]) (blockID (chunk_id c)) (offset c)
                       (if int S - offset c > C then C else int S - offset c))
               (sched (map (\<lambda>j. \<lparr>offset = int j * C, chunk_size = C, chunk_id = int j + 1, attempt = 0\<rparr>)
                  [0..<nat \<lceil>real S / real_of_int C\<rceil>])))))
           \<and> (\<forall>r calls. Save k a b io sched snap = Returns (r, calls) \<longrightarrow>
                (calls = (map (\<lambda>c. StageBlock (path_Join [adaptPrefix k snap (prefix a), SnapDir snap, SnapName snap]) (blockID (chunk_id c)) (offset c)
                       (if int S - offset c > C then C else int S - offset c))
               (sched (map (\<lambda>j. \<lparr>offset = int j * C, chunk_size = C, chunk_id = int j + 1, attempt = 0\<rparr>)
                  [0..<nat \<lceil>real S / real_of_int C\<rceil>]))) \<and> r \<noteq> None)
              \<or> (calls = (map (\<lambda>c. StageBlock (path_Join [adaptPrefix k snap (prefix a), SnapDir snap, SnapName snap]) (blockID (chunk_id c)) (offset c)
                       (if int S - offset c > C then C else int S - offset c))
               (sched (map (\<lambda>j. \<lparr>offset = int j * C, chunk_size = C, chunk_id = int j + 1, attempt = 0\<rparr>)
                  [0..<nat \<lceil>real S / real_of_int C\<rceil>]))) @ [CommitBlockList (path_Join [adaptPrefix k snap (prefix a), SnapDir snap, SnapName snap]) (map blockID [1..\<lceil>real S / real_of_int C\<rceil>])]
                 \<and> mset (sched (map (\<lambda>j. \<lparr>offset = int j * C, chunk_size = C, chunk_id = int j + 1, attempt = 0\<rparr>)
                  [0..<nat \<lceil>real S / real_of_int C\<rceil>])) = mset (map (\<lambda>j. \<lparr>offset = int j * C, chunk_size = C, chunk_id = int j + 1, attempt = 0\<rparr>)
                  [0..<nat \<lceil>real S / real_of_int C\<rceil>])))"
  proof
    assume h: "minChunkSize a = C \<and> createTemp_err io = None \<and> copy_result io = Inr S
          \<and> stat_err io = None \<and> 0 < maxParallelChunkUploads a
          \<and> (\<forall>cs. mset (sched cs) \<subseteq># mset cs)"
    then have mc: "minChunkSize a = C" and t: "createTemp_err io = None"
      and w: "copy_result io = Inr S" and st: "stat_err io = None"
      and P: "maxParallelChunkUploads a \<noteq> 0"
      and sched: "\<forall>cs. mset (sched cs) \<subseteq># mset cs"
      by simp_all
    define chs where "chs = (map (\<lambda>j. \<lparr>offset = int j * C, chunk_size = C, chunk_id = int j + 1, attempt = 0\<rparr>)
                  [0..<nat \<lceil>real S / real_of_int C\<rceil>])"
    from sched have sub: "mset (sched chs) \<subseteq># mset chs" by blast
    then have ss: "set (sched chs) \<subseteq> set chs" by (metis set_mset_mono set_mset_mset)
    have el: "\<forall>c\<in>set (sched chs). chunk_size c = C
                \<and> go_quo (offset c) (chunk_size c) + 1 = chunk_id c"
      using ss dispatched_chunk[OF C] unfolding chs_def by blast
    then have nz: "\<forall>c\<in>set (sched chs). chunk_size c \<noteq> 0" using C by auto
    from el have el2: "\<forall>c\<in>set (sched chs). go_quo (offset c) C + 1 = chunk_id c" by auto
    have len: "length chs = nat \<lceil>real S / real_of_int C\<rceil>" by (simp add: chs_def)
    have r1: "(map (\<lambda>c. \<lparr>err = (case stageBlock_resp b (path_Join [adaptPrefix k snap (prefix a), SnapDir snap, SnapName snap])
                                 (blockID (go_quo (offset c) (chunk_size c) + 1)) of
                           Some e \<Rightarrow> Some (StageFailed (offset c) (path_Join [adaptPrefix k snap (prefix a), SnapDir snap, SnapName snap]) e)
                         | None \<Rightarrow> None),
                   chunk = c\<rparr>) (sched chs)) = (map (\<lambda>c. \<lparr>err = (case stageBlock_resp b (path_Join [adaptPrefix k snap (prefix a), SnapDir snap, SnapName snap]) (blockID (chunk_id c)) of
                               Some e \<Rightarrow> Some (StageFailed (offset c) (path_Join [adaptPrefix k snap (prefix a), SnapDir snap, SnapName snap]) e)
                             | None \<Rightarrow> None),
                       chunk = c\<rparr>)
               (sched chs))"
      by (rule map_cong[OF refl]) (simp add: el el2)
    have r2: "(map (\<lambda>c. StageBlock (path_Join [adaptPrefix k snap (prefix a), SnapDir snap, SnapName snap])
                   (blockID (go_quo (offset c) (chunk_size c) + 1)) (offset c)
                   (if int S - offset c > chunk_size c then chunk_size c else int S - offset c))
                (sched chs)) = (map (\<lambda>c. StageBlock (path_Join [adaptPrefix k snap (prefix a), SnapDir snap, SnapName snap]) (blockID (chunk_id c)) (offset c)
                       (if int S - offset c > C then C else int S - offset c))
               (sched chs))"
      by (rule map_cong[OF refl]) (simp add: el el2)
    have C': "0 < minChunkSize a" using C mc by simp
    have up: "Save_upload k a b io sched snap = Returns (Inr (\<lceil>real S / real_of_int C\<rceil>, (map (\<lambda>c. \<lparr>err = (case stageBlock_resp b (path_Join [adaptPrefix k snap (prefix a), SnapDir snap, SnapName snap]) (blockID (chunk_id c)) of
                               Some e \<Rightarrow> Some (StageFailed (offset c) (path_Join [adaptPrefix k snap (prefix a), SnapDir snap, SnapName snap]) e)
                             | None \<Rightarrow> None),
                       chunk = c\<rparr>)
               (sched chs)), (map (\<lambda>c. StageBlock (path_Join [adaptPrefix k snap (prefix a), SnapDir snap, SnapName snap]) (blockID (chunk_id c)) (offset c)
                       (if int S - offset c > C then C else int S - offset c))
               (sched chs))))"
      unfolding Save_upload_eval[OF C' t w] mc n chs_def[symmetric]
      using P by (simp add: blockUploader_eval[OF st nz] r1 r2)
    have sv: "\<forall>r calls. Save k a b io sched snap = Returns (r, calls) \<longrightarrow>
                (calls = (map (\<lambda>c. StageBlock (path_Join [adaptPrefix k snap (prefix a), SnapDir snap, SnapName snap]) (blockID (chunk_id c)) (offset c)
                       (if int S - offset c > C then C else int S - offset c))
               (sched chs)) \<and> r \<noteq> None)
              \<or> (calls = (map (\<lambda>c. StageBlock (path_Join [adaptPrefix k snap (prefix a), SnapDir snap, SnapName snap]) (blockID (chunk_id c)) (offset c)
                       (if int S - offset c > C then C else int S - offset c))
               (sched chs)) @ [CommitBlockList (path_Join [adaptPrefix k snap (prefix a), SnapDir snap, SnapName snap]) (map blockID [1..\<lceil>real S / real_of_int C\<rceil>])]
                 \<and> mset (sched chs) = mset chs)"
    proof (intro allI impI)
      fix r calls
      assume s: "Save k a b io sched snap = Returns (r, calls)"
      from Save_cases[OF up s]
      show "(calls = (map (\<lambda>c. StageBlock (path_Join [adaptPrefix k snap (prefix a), SnapDir snap, SnapName snap]) (blockID (chunk_id c)) (offset c)
                       (if int S - offset c > C then C else int S - offset c))
               (sched chs)) \<and> r \<noteq> None)
              \<or> (calls = (map (\<lambda>c. StageBlock (path_Join [adaptPrefix k snap (prefix a), SnapDir snap, SnapName snap]) (blockID (chunk_id c)) (offset c)
                       (if int S - offset c > C then C else int S - offset c))
               (sched chs)) @ [CommitBlockList (path_Join [adaptPrefix k snap (prefix a), SnapDir snap, SnapName snap]) (map blockID [1..\<lceil>real S / real_of_int C\<rceil>])]
                 \<and> mset (sched chs) = mset chs)"
      proof
        assume "calls = (map (\<lambda>c. StageBlock (path_Join [adaptPrefix k snap (prefix a), SnapDir snap, SnapName snap]) (blockID (chunk_id c)) (offset c)
                       (if int S - offset c > C then C else int S - offset c))
               (sched chs)) \<and> r \<noteq> None
                  \<and> (\<exists>x\<in>set (map (\<lambda>c. \<lparr>err = (case stageBlock_resp b (path_Join [adaptPrefix k snap (prefix a), SnapDir snap, SnapName snap]) (blockID (chunk_id c)) of
                               Some e \<Rightarrow> Some (StageFailed (offset c) (path_Join [adaptPrefix k snap (prefix a), SnapDir snap, SnapName snap]) e)
                             | None \<Rightarrow> None),
                       chunk = c\<rparr>)
               (sched chs)). err x \<noteq> None)"
        then show ?thesis by blast
      next
        assume c: "calls = (map (\<lambda>c. StageBlock (path_Join [adaptPrefix k snap (prefix a), SnapDir snap, SnapName snap]) (blockID (chunk_id c)) (offset c)
                       (if int S - offset c > C then C else int S - offset c))
               (sched chs)) @ [CommitBlockList (path_Join [adaptPrefix k snap (prefix a), SnapDir snap, SnapName snap]) (map blockID [1..\<lceil>real S / real_of_int C\<rceil>])]
          \<and> collectChunkUploadError (map (\<lambda>c. \<lparr>err = (case stageBlock_resp b (path_Join [adaptPrefix k snap (prefix a), SnapDir snap, SnapName snap]) (blockID (chunk_id c)) of
                               Some e \<Rightarrow> Some (StageFailed (offset c) (path_Join [adaptPrefix k snap (prefix a), SnapDir snap, SnapName snap]) e)
                             | None \<Rightarrow> None),
                       chunk = c\<rparr>)
               (sched chs)) (nat \<lceil>real S / real_of_int C\<rceil>) = Some None"
        then have "collectChunkUploadError (map (\<lambda>c. \<lparr>err = (case stageBlock_resp b (path_Join [adaptPrefix k snap (prefix a), SnapDir snap, SnapName snap]) (blockID (chunk_id c)) of
                               Some e \<Rightarrow> Some (StageFailed (offset c) (path_Join [adaptPrefix k snap (prefix a), SnapDir snap, SnapName snap]) e)
                             | None \<Rightarrow> None),
                       chunk = c\<rparr>)
               (sched chs)) (nat \<lceil>real S / real_of_int C\<rceil>) = Some None" by simp
        from collect_no_error[OF this] have "nat \<lceil>real S / real_of_int C\<rceil> \<le> length (sched chs)" by simp
        then have "length chs \<le> length (sched chs)" using len by simp
        with sub have "mset (sched chs) = mset chs" by (rule submset_same_length)
        with c show ?thesis by blast
      qed
    qed
    from up sv show "Save_upload k a b io sched snap = Returns (Inr (\<lceil>real S / real_of_int C\<rceil>, (map (\<lambda>c. \<lparr>err = (case stageBlock_resp b (path_Join [adaptPrefix k snap (prefix a), SnapDir snap, SnapName snap]) (blockID (chunk_id c)) of
                               Some e \<Rightarrow> Some (StageFailed (offset c) (path_Join [adaptPrefix k snap (prefix a), SnapDir snap, SnapName snap]) e)
                             | None \<Rightarrow> None),
                       chunk = c\<rparr>)
               (sched (map (\<lambda>j. \<lparr>offset = int j * C, chunk_size = C, chunk_id = int j + 1, attempt = 0\<rparr>)
                  [0..<nat \<lceil>real S / real_of_int C\<rceil>]))), (map (\<lambda>c. StageBlock (path_Join [adaptPrefix k snap (prefix a), SnapDir snap, SnapName snap]) (blockID (chunk_id c)) (offset c)
                       (if int S - offset c > C then C else int S - offset c))
               (sched (map (\<lambda>j. \<lparr>offset = int j * C, chunk_size = C, chunk_id = int j + 1, attempt = 0\<rparr>)
                  [0..<nat \<lceil>real S / real_of_int C\<rceil>])))))
           \<and> (\<forall>r calls. Save k a b io sched snap = Returns (r, calls) \<longrightarrow>
                (calls = (map (\<lambda>c. StageBlock (path_Join [adaptPrefix k snap (prefix a), SnapDir snap, SnapName snap]) (blockID (chunk_id c)) (offset c)
                       (if int S - offset c > C then C else int S - offset c))
               (sched (map (\<lambda>j. \<lparr>offset = int j * C, chunk_size = C, chunk_id = int j + 1, attempt = 0\<rparr>)
                  [0..<nat \<lceil>real S / real_of_int C\<rceil>]))) \<and> r \<noteq> None)
              \<or> (calls = (map (\<lambda>c. StageBlock (path_Join [adaptPrefix k snap (prefix a), SnapDir snap, SnapName snap]) (blockID (chunk_id c)) (offset c)
                       (if int S - offset c > C then C else int S - offset c))
               (sched (map (\<lambda>j. \<lparr>offset = int j * C, chunk_size = C, chunk_id = int j + 1, attempt = 0\<rparr>)
                  [0..<nat \<lceil>real S / real_of_int C\<rceil>]))) @ [CommitBlockList (path_Join [adaptPrefix k snap (prefix a), SnapDir snap, SnapName snap]) (map blockID [1..\<lceil>real S / real_of_int C\<rceil>])]
                 \<and> mset (sched (map (\<lambda>j. \<lparr>offset = int j * C, chunk_size = C, chunk_id = int j + 1, attempt = 0\<rparr>)
                  [0..<nat \<lceil>real S / real_of_int C\<rceil>])) = mset (map (\<lambda>j. \<lparr>offset = int j * C, chunk_size = C, chunk_id = int j + 1, attempt = 0\<rparr>)
                  [0..<nat \<lceil>real S / real_of_int C\<rceil>])))"
      unfolding chs_def by blast
  qed
  from n d u e f show ?thesis by blast
qed

theorem Save_chunk_arithmetic_witness:
  "(0::int) < 4
   \<and> noOfChunks (int 10) 4 = 3
   \<and> dispatchChunks (int 10) 4 0 1 =
       Some [\<lparr>offset = 0, chunk_size = 4, chunk_id = 1, attempt = 0\<rparr>,
             \<lparr>offset = 4, chunk_size = 4, chunk_id = 2, attempt = 0\<rparr>,
             \<lparr>offset = 8, chunk_size = 4, chunk_id = 3, attempt = 0\<rparr>]
   \<and> minChunkSize store_example = 4
   \<and> createTemp_err (io_example 0) = None \<and> copy_result (io_example 0) = Inr 0
   \<and> (\<forall>cs::chunk list. mset (rev cs) \<subseteq># mset cs)
   \<and> Save pkg_example store_example backend_ok (io_example 0) rev snap_example =
       Returns (None, [CommitBlockList ''etcd/v2/Backup-1/Full-0-10-1'' []])
   \<and> createTemp_err (io_example 10) = None \<and> copy_result (io_example 10) = Inr 10
   \<and> stat_err (io_example 10) = None \<and> 0 < maxParallelChunkUploads store_example
   \<and> Save_upload pkg_example store_example backend_ok (io_example 10) rev snap_example =
       Returns (Inr (3,
         [\<lparr>err = None, chunk = \<lparr>offset = 8, chunk_size = 4, chunk_id = 3, attempt = 0\<rparr>\<rparr>,
          \<lparr>err = None, chunk = \<lparr>offset = 4, chunk_size = 4, chunk_id = 2, attempt = 0\<rparr>\<rparr>,
          \<lparr>err = None, chunk = \<lparr>offset = 0, chunk_size = 4, chunk_id = 1, attempt = 0\<rparr>\<rparr>],
         [StageBlock ''etcd/v2/Backup-1/Full-0-10-1'' ''MDAwMDAwMDAwMw=='' 8 2,
          StageBlock ''etcd/v2/Backup-1/Full-0-10-1'' ''MDAwMDAwMDAwMg=='' 4 4,
          StageBlock ''etcd/v2/Backup-1/Full-0-10-1'' ''MDAwMDAwMDAwMQ=='' 0 4]))
   \<and> Save pkg_example store_example backend_ok (io_example 10) rev snap_example =
       Returns (None,
         [StageBlock ''etcd/v2/Backup-1/Full-0-10-1'' ''MDAwMDAwMDAwMw=='' 8 2,
          StageBlock ''etcd/v2/Backup-1/Full-0-10-1'' ''MDAwMDAwMDAwMg=='' 4 4,
          StageBlock ''etcd/v2/Backup-1/Full-0-10-1'' ''MDAwMDAwMDAwMQ=='' 0 4,
          CommitBlockList ''etcd/v2/Backup-1/Full-0-10-1''
            [''MDAwMDAwMDAwMQ=='', ''MDAwMDAwMDAwMg=='', ''MDAwMDAwMDAwMw=='']])"
proof -
  have c: "(0::int) < 4" by simp
  have v: "\<lceil>real 10 / real_of_int 4\<rceil> = 3" by simp
  have l: "[0..<nat 3] = [0, 1, 2]" by (simp add: upt_rec)
  have h: "minChunkSize store_example = 4
     \<and> createTemp_err (io_example 0) = None \<and> copy_result (io_example 0) = Inr 0
     \<and> (\<forall>cs::chunk list. mset (rev cs) \<subseteq># mset cs)"
    by (simp add: save_example_simps)
  note t = Save_chunk_arithmetic[OF c, of 10 store_example "io_example 0" pkg_example
             backend_ok rev snap_example]
  from t[THEN conjunct1] v have r1: "noOfChunks (int 10) 4 = 3" by simp
  from t[THEN conjunct2, THEN conjunct1] v l
  have r2: "dispatchChunks (int 10) 4 0 1 =
       Some [\<lparr>offset = 0, chunk_size = 4, chunk_id = 1, attempt = 0\<rparr>,
             \<lparr>offset = 4, chunk_size = 4, chunk_id = 2, attempt = 0\<rparr>,
             \<lparr>offset = 8, chunk_size = 4, chunk_id = 3, attempt = 0\<rparr>]"
    by simp
  have p: "path_Join [adaptPrefix pkg_example snap_example (prefix store_example),
                      SnapDir snap_example, SnapName snap_example]
             = ''etcd/v2/Backup-1/Full-0-10-1''"
    by (simp add: save_example_simps path_Join_def path_Clean_def)
  from t[THEN conjunct2, THEN conjunct2, THEN conjunct2, THEN conjunct1, rule_format, OF h]
  have r3: "Save pkg_example store_example backend_ok (io_example 0) rev snap_example =
       Returns (None, [CommitBlockList ''etcd/v2/Backup-1/Full-0-10-1'' []])"
    unfolding p by (simp add: backend_ok_def)
  have h10: "minChunkSize store_example = 4
     \<and> createTemp_err (io_example 10) = None \<and> copy_result (io_example 10) = Inr 10
     \<and> stat_err (io_example 10) = None \<and> 0 < maxParallelChunkUploads store_example
     \<and> (\<forall>cs::chunk list. mset (rev cs) \<subseteq># mset cs)"
    by (simp add: save_example_simps)
  note t10 = Save_chunk_arithmetic[OF c, of 10 store_example "io_example 10" pkg_example
               backend_ok rev snap_example]
  from t10[THEN conjunct2, THEN conjunct2, THEN conjunct2, THEN conjunct2, rule_format, OF h10,
           THEN conjunct1]
  have e1: "Save_upload pkg_example store_example backend_ok (io_example 10) rev snap_example =
       Returns (Inr (3,
         (map (\<lambda>c. \<lparr>err = (case stageBlock_resp backend_ok (path_Join [adaptPrefix pkg_example snap_example (prefix store_example), SnapDir snap_example, SnapName snap_example]) (blockID (chunk_id c)) of
                               Some e \<Rightarrow> Some (StageFailed (offset c) (path_Join [adaptPrefix pkg_example snap_example (prefix store_example), SnapDir snap_example, SnapName snap_example]) e)
                             | None \<Rightarrow> None),
                       chunk = c\<rparr>)
               (rev (map (\<lambda>j. \<lparr>offset = int j * 4, chunk_size = 4, chunk_id = int j + 1, attempt = 0\<rparr>)
                  [0..<nat 3]))),
         (map (\<lambda>c. StageBlock (path_Join [adaptPrefix pkg_example snap_example (prefix store_example), SnapDir snap_example, SnapName snap_example]) (blockID (chunk_id c)) (offset c)
                       (if int 10 - offset c > 4 then 4 else int 10 - offset c))
               (rev (map (\<lambda>j. \<lparr>offset = int j * 4, chunk_size = 4, chunk_id = int j + 1, attempt = 0\<rparr>)
                  [0..<nat 3])))))"
    unfolding v .
  have e2: "(map (\<lambda>c. \<lparr>err = (case stageBlock_resp backend_ok (path_Join [adaptPrefix pkg_example snap_example (prefix store_example), SnapDir snap_example, SnapName snap_example]) (blockID (chunk_id c)) of
                               Some e \<Rightarrow> Some (StageFailed (offset c) (path_Join [adaptPrefix pkg_example snap_example (prefix store_example), SnapDir snap_example, SnapName snap_example]) e)
                             | None \<Rightarrow> None),
                       chunk = c\<rparr>)
               (rev (map (\<lambda>j. \<lparr>offset = int j * 4, chunk_size = 4, chunk_id = int j + 1, attempt = 0\<rparr>)
                  [0..<nat 3]))) =
         [\<lparr>err = None, chunk = \<lparr>offset = 8, chunk_size = 4, chunk_id = 3, attempt = 0\<rparr>\<rparr>,
          \<lparr>err = None, chunk = \<lparr>offset = 4, chunk_size = 4, chunk_id = 2, attempt = 0\<rparr>\<rparr>,
          \<lparr>err = None, chunk = \<lparr>offset = 0, chunk_size = 4, chunk_id = 1, attempt = 0\<rparr>\<rparr>]"
    by code_simp
  have e3: "(map (\<lambda>c. StageBlock (path_Join [adaptPrefix pkg_example snap_example (prefix store_example), SnapDir snap_example, SnapName snap_example]) (blockID (chunk_id c)) (offset c)
                       (if int 10 - offset c > 4 then 4 else int 10 - offset c))
               (rev (map (\<lambda>j. \<lparr>offset = int j * 4, chunk_size = 4, chunk_id = int j + 1, attempt = 0\<rparr>)
                  [0..<nat 3]))) =
         [StageBlock ''etcd/v2/Backup-1/Full-0-10-1'' ''MDAwMDAwMDAwMw=='' 8 2,
          StageBlock ''etcd/v2/Backup-1/Full-0-10-1'' ''MDAwMDAwMDAwMg=='' 4 4,
          StageBlock ''etcd/v2/Backup-1/Full-0-10-1'' ''MDAwMDAwMDAwMQ=='' 0 4]"
    by code_simp
  from e1 have r4: "Save_upload pkg_example store_example backend_ok (io_example 10) rev snap_example =
       Returns (Inr (3,
         [\<lparr>err = None, chunk = \<lparr>offset = 8, chunk_size = 4, chunk_id = 3, attempt = 0\<rparr>\<rparr>,
          \<lparr>err = None, chunk = \<lparr>offset = 4, chunk_size = 4, chunk_id = 2, attempt = 0\<rparr>\<rparr>,
          \<lparr>err = None, chunk = \<lparr>offset = 0, chunk_size = 4, chunk_id = 1, attempt = 0\<rparr>\<rparr>],
         [StageBlock ''etcd/v2/Backup-1/Full-0-10-1'' ''MDAwMDAwMDAwMw=='' 8 2,
          StageBlock ''etcd/v2/Backup-1/Full-0-10-1'' ''MDAwMDAwMDAwMg=='' 4 4,
          StageBlock ''etcd/v2/Backup-1/Full-0-10-1'' ''MDAwMDAwMDAwMQ=='' 0 4]))"
    unfolding e2 e3 .
  have r5: "Save pkg_example store_example backend_ok (io_example 10) rev snap_example =
       Returns (None,
         [StageBlock ''etcd/v2/Backup-1/Full-0-10-1'' ''MDAwMDAwMDAwMw=='' 8 2,
          StageBlock ''etcd/v2/Backup-1/Full-0-10-1'' ''MDAwMDAwMDAwMg=='' 4 4,
          StageBlock ''etcd/v2/Backup-1/Full-0-10-1'' ''MDAwMDAwMDAwMQ=='' 0 4,
          CommitBlockList ''etcd/v2/Backup-1/Full-0-10-1''
            [''MDAwMDAwMDAwMQ=='', ''MDAwMDAwMDAwMg=='', ''MDAwMDAwMDAwMw=='']])"
    by code_simp
  from c r1 r2 h r3 h10 r4 r5 show ?thesis by simp
qed

subsection \<open>The committed block list\<close>

text \<open>
  Claim C5. Let a Save return without error, the workers having uploaded only chunks
  that were sent to them, each at most once. Then its backend calls are one
  \<open>StageBlock\<close> for each chunk that was sent, in the order in which the uploads were
  completed, followed by one \<open>CommitBlockList\<close> whose list is the identifiers of the
  part numbers \<open>1, 2, \<dots>, N\<close> in this order, \<open>N\<close> being the number of chunks. The
  identifier staged for a chunk is that of its offset divided by the chunk size, plus
  one, which is its sequence number; read in the order of the offsets the staged
  identifiers are the committed list, and the committed identifiers are pairwise
  different. The identifier of a part number is the base64 form of its decimal digits
  padded with zeros, ten characters wide for every part number below \<open>10\<^sup>1\<^sup>0\<close>. Every
  other order of completion that lets the same Save succeed ends with the same
  \<open>CommitBlockList\<close> call.
\<close>

theorem Save_block_list:
  assumes sched: "\<forall>cs. mset (sched cs) \<subseteq># mset cs"
    and ok: "Save k a b io sched snap = Returns (None, calls)"
  shows "\<exists>written chunks.
       copy_result io = Inr written
     \<and> dispatchChunks (int written) (minChunkSize a) 0 1 = Some chunks
     \<and> calls = map (\<lambda>c. StageBlock
                    (path_Join [adaptPrefix k snap (prefix a), SnapDir snap, SnapName snap])
                    (blockID (go_quo (offset c) (chunk_size c) + 1)) (offset c)
                    (if int written - offset c > chunk_size c then chunk_size c
                     else int written - offset c)) (sched chunks)
               @ [CommitBlockList
                    (path_Join [adaptPrefix k snap (prefix a), SnapDir snap, SnapName snap])
                    (map blockID [1..noOfChunks (int written) (minChunkSize a)])]
     \<and> mset (sched chunks) = mset chunks
     \<and> map (\<lambda>c. blockID (go_quo (offset c) (chunk_size c) + 1)) chunks
         = map blockID [1..noOfChunks (int written) (minChunkSize a)]
     \<and> (\<forall>c\<in>set chunks. chunk_size c = minChunkSize a
            \<and> go_quo (offset c) (chunk_size c) + 1 = chunk_id c)
     \<and> distinct (map blockID [1..noOfChunks (int written) (minChunkSize a)])
     \<and> (\<forall>p. 0 \<le> p \<and> p < 10 ^ 10 \<longrightarrow>
            blockID p = base64_EncodeToString (sprintf_010d p) \<and> length (sprintf_010d p) = 10)
     \<and> (\<forall>sched' calls'. (\<forall>cs. mset (sched' cs) \<subseteq># mset cs)
            \<and> Save k a b io sched' snap = Returns (None, calls')
          \<longrightarrow> last calls' = last calls)"
proof -
  from Save_ok_parts[OF sched ok] obtain written chunks where
    cp: "copy_result io = Inr written"
    and d: "dispatchChunks (int written) (minChunkSize a) 0 1 = Some chunks"
    and ms: "mset (sched chunks) = mset chunks"
    and ca: "calls = map (\<lambda>c. StageBlock
                    (path_Join [adaptPrefix k snap (prefix a), SnapDir snap, SnapName snap])
                    (blockID (go_quo (offset c) (chunk_size c) + 1)) (offset c)
                    (if int written - offset c > chunk_size c then chunk_size c
                     else int written - offset c)) (sched chunks)
               @ [CommitBlockList
                    (path_Join [adaptPrefix k snap (prefix a), SnapDir snap, SnapName snap])
                    (map blockID [1..noOfChunks (int written) (minChunkSize a)])]"
    by blast
  from dispatched_ids[OF d]
  have ids: "map (\<lambda>ch. go_quo (offset ch) (chunk_size ch) + 1) chunks
               = [1..noOfChunks (int written) (minChunkSize a)]"
    and each: "\<forall>c\<in>set chunks. chunk_size c = minChunkSize a
            \<and> go_quo (offset c) (chunk_size c) + 1 = chunk_id c"
    by blast+
  have "map (\<lambda>c. blockID (go_quo (offset c) (chunk_size c) + 1)) chunks
          = map blockID (map (\<lambda>ch. go_quo (offset ch) (chunk_size ch) + 1) chunks)"
    by (simp add: o_def)
  then have ids': "map (\<lambda>c. blockID (go_quo (offset c) (chunk_size c) + 1)) chunks
         = map blockID [1..noOfChunks (int written) (minChunkSize a)]"
    by (simp only: ids)
  have w: "\<forall>p. 0 \<le> p \<and> p < 10 ^ 10 \<longrightarrow>
            blockID p = base64_EncodeToString (sprintf_010d p) \<and> length (sprintf_010d p) = 10"
    by (simp add: blockID_def sprintf_010d_width)
  have ind: "\<forall>sched' calls'. (\<forall>cs. mset (sched' cs) \<subseteq># mset cs)
            \<and> Save k a b io sched' snap = Returns (None, calls')
          \<longrightarrow> last calls' = last calls"
  proof (intro allI impI)
    fix sched' calls'
    assume h: "(\<forall>cs. mset (sched' cs) \<subseteq># mset cs)
            \<and> Save k a b io sched' snap = Returns (None, calls')"
    then have s': "\<forall>cs. mset (sched' cs) \<subseteq># mset cs"
      and ok': "Save k a b io sched' snap = Returns (None, calls')" by simp_all
    from Save_ok_parts[OF s' ok'] cp
    have "last calls' = CommitBlockList
                    (path_Join [adaptPrefix k snap (prefix a), SnapDir snap, SnapName snap])
                    (map blockID [1..noOfChunks (int written) (minChunkSize a)])"
      by auto
    moreover from ca have "last calls = CommitBlockList
                    (path_Join [adaptPrefix k snap (prefix a), SnapDir snap, SnapName snap])
                    (map blockID [1..noOfChunks (int written) (minChunkSize a)])"
      by simp
    ultimately show "last calls' = last calls" by simp
  qed
  from cp d ca ms ids' each blockID_distinct w ind show ?thesis by blast
qed

theorem Save_block_list_witness:
  "(\<forall>cs::chunk list. mset (rev cs) \<subseteq># mset cs)
   \<and> Save pkg_example store_example backend_ok (io_example 10) rev snap_example =
       Returns (None,
         [StageBlock ''etcd/v2/Backup-1/Full-0-10-1'' ''MDAwMDAwMDAwMw=='' 8 2,
          StageBlock ''etcd/v2/Backup-1/Full-0-10-1'' ''MDAwMDAwMDAwMg=='' 4 4,
          StageBlock ''etcd/v2/Backup-1/Full-0-10-1'' ''MDAwMDAwMDAwMQ=='' 0 4,
          CommitBlockList ''etcd/v2/Backup-1/Full-0-10-1''
            [''MDAwMDAwMDAwMQ=='', ''MDAwMDAwMDAwMg=='', ''MDAwMDAwMDAwMw=='']])
   \<and> map blockID [1..noOfChunks (int 10) (minChunkSize store_example)]
       = [''MDAwMDAwMDAwMQ=='', ''MDAwMDAwMDAwMg=='', ''MDAwMDAwMDAwMw=='']
   \<and> distinct (map blockID [1..noOfChunks (int 10) (minChunkSize store_example)])"
proof -
  let ?calls =
        "[StageBlock ''etcd/v2/Backup-1/Full-0-10-1'' ''MDAwMDAwMDAwMw=='' 8 2,
          StageBlock ''etcd/v2/Backup-1/Full-0-10-1'' ''MDAwMDAwMDAwMg=='' 4 4,
          StageBlock ''etcd/v2/Backup-1/Full-0-10-1'' ''MDAwMDAwMDAwMQ=='' 0 4,
          CommitBlockList ''etcd/v2/Backup-1/Full-0-10-1''
            [''MDAwMDAwMDAwMQ=='', ''MDAwMDAwMDAwMg=='', ''MDAwMDAwMDAwMw=='']]"
  have s: "\<forall>cs::chunk list. mset (rev cs) \<subseteq># mset cs" by simp
  have ok: "Save pkg_example store_example backend_ok (io_example 10) rev snap_example =
       Returns (None, ?calls)"
    by code_simp
  from Save_block_list[OF s ok]
  have "\<exists>written. copy_result (io_example 10) = Inr written
          \<and> distinct (map blockID [1..noOfChunks (int written) (minChunkSize store_example)])"
    by (elim exE conjE) (intro exI conjI, assumption+)
  then have di: "distinct (map blockID [1..noOfChunks (int 10) (minChunkSize store_example)])"
    by (simp add: io_example_def)
  have n: "noOfChunks (int 10) (minChunkSize store_example) = 3"
    by (simp add: noOfChunks_def go_quo_def go_rem_def store_example_def)
  have l: "[1..3::int] = [1, 2, 3]" by (simp add: upto_rec1)
  have "map blockID [1..noOfChunks (int 10) (minChunkSize store_example)]
       = [''MDAwMDAwMDAwMQ=='', ''MDAwMDAwMDAwMg=='', ''MDAwMDAwMDAwMw=='']"
    unfolding n l by code_simp
  with s ok di show ?thesis by simp
qed

section \<open>List: properties\<close>

subsection \<open>Auxiliary facts\<close>

lemma strings_Split_nonempty: "strings_Split sep s \<noteq> []"
  by (induction s) (auto split: list.splits)

lemma strings_Split_no_sep: "sep \<notin> set v \<Longrightarrow> strings_Split sep v = [v]"
  by (induction v) auto

lemma strings_Split_append:
  "strings_Split sep (p @ sep # q) = strings_Split sep p @ strings_Split sep q"
proof (induction p)
  case Nil
  then show ?case by simp
next
  case (Cons c p)
  then show ?case
    using strings_Split_nonempty[of sep p]
    by (cases "strings_Split sep p") auto
qed

lemma strings_Join_Split: "strings_Join (strings_Split sep s) [sep] = s"
proof (induction s)
  case Nil
  then show ?case by simp
next
  case (Cons c s)
  show ?case
  proof (cases "c = sep")
    case True
    with Cons show ?thesis
      using strings_Split_nonempty[of sep s]
      by (cases "strings_Split sep s") auto
  next
    case False
    obtain t ts where ts: "strings_Split sep s = t # ts"
      using strings_Split_nonempty[of sep s] by (cases "strings_Split sep s") auto
    with Cons have "strings_Join (t # ts) [sep] = s" by simp
    then have "strings_Join ((c # t) # ts) [sep] = c # s"
      by (cases ts) auto
    with False ts show ?thesis by simp
  qed
qed

lemma listPrefix_drops_last:
  assumes "CHR ''/'' \<notin> set v"
  shows "listPrefix (a\<lparr>prefix := p @ ''/'' @ v\<rparr>) = path_Join [p]"
proof -
  have "strings_Split CHR ''/'' (p @ ''/'' @ v) = strings_Split CHR ''/'' p @ [v]"
    using strings_Split_append[of "CHR ''/''" p v] strings_Split_no_sep[OF assms] by simp
  then show ?thesis
    by (simp add: listPrefix_def Let_def strings_Join_Split)
qed

lemma mset_sort_insert: "mset (sort_insert lt x ys) = add_mset x (mset ys)"
  by (induction ys) auto

lemma mset_sort_Sort: "mset (sort_Sort lt xs) = mset xs"
  by (induction xs) (auto simp: mset_sort_insert)

lemma set_sort_insert: "set (sort_insert lt x ys) = insert x (set ys)"
  by (induction ys) auto

lemma sorted_sort_insert:
  assumes asym: "\<forall>x y. lt x y \<longrightarrow> \<not> lt y x"
    and ntrans: "\<forall>x y z. \<not> lt x y \<and> \<not> lt y z \<longrightarrow> \<not> lt x z"
  shows "sorted_wrt (\<lambda>x y. \<not> lt y x) ys \<Longrightarrow> sorted_wrt (\<lambda>x y. \<not> lt y x) (sort_insert lt x ys)"
proof (induction ys)
  case Nil
  then show ?case by simp
next
  case (Cons y ys)
  show ?case
  proof (cases "lt y x")
    case True
    with asym have "\<not> lt x y" by blast
    with True Cons show ?thesis by (auto simp: set_sort_insert)
  next
    case False
    have "\<forall>z\<in>set ys. \<not> lt z x"
    proof
      fix z assume "z \<in> set ys"
      with Cons.prems have "\<not> lt z y" by simp
      with False ntrans show "\<not> lt z x" by blast
    qed
    with False Cons.prems show ?thesis by simp
  qed
qed

lemma sorted_sort_Sort:
  assumes asym: "\<forall>x y. lt x y \<longrightarrow> \<not> lt y x"
    and ntrans: "\<forall>x y z. \<not> lt x y \<and> \<not> lt y z \<longrightarrow> \<not> lt x z"
  shows "sorted_wrt (\<lambda>x y. \<not> lt y x) (sort_Sort lt xs)"
  by (induction xs) (auto intro: sorted_sort_insert[OF asym ntrans])

lemma List_blobs_fst:
  "fst (List_blobs k pfx names) =
     concat (map (\<lambda>name.
        if strings_Contains name (backupVersionV1 k) \<or> strings_Contains name (backupVersionV2 k)
        then (case ParseSnapshot k (path_Join [pfx, strings_TrimPrefix name pfx]) of
                Inl e \<Rightarrow> [] | Inr s \<Rightarrow> [s])
        else []) names)"
  by (induction names) (auto simp: Let_def split: prod.splits sum.splits)

lemma List_blobs_snd:
  "snd (List_blobs k pfx names) =
     filter (\<lambda>name.
        (strings_Contains name (backupVersionV1 k) \<or> strings_Contains name (backupVersionV2 k))
        \<and> isl (ParseSnapshot k (path_Join [pfx, strings_TrimPrefix name pfx]))) names"
  by (induction names) (auto simp: Let_def split: prod.splits sum.splits)

lemma List_pages_ok:
  "List_pages k pfx (map Inr pss) =
     (Inr (concat (map (\<lambda>names. fst (List_blobs k pfx names)) pss)),
      replicate (length pss) NextPage,
      concat (map (\<lambda>names. snd (List_blobs k pfx names)) pss))"
  by (induction pss) (auto simp: Let_def split: prod.splits sum.splits)

lemma List_pages_error:
  "List_pages k pfx pages = (Inl e, calls, warned) \<Longrightarrow>
     \<exists>e'. Inl e' \<in> set pages \<and> e = ListFailed e'"
  by (induction pages arbitrary: calls warned) (auto simp: Let_def split: prod.splits sum.splits)

lemma List_pages_all:
  "List_pages k pfx (map Inr pss) =
     (Inr (concat (map (\<lambda>name.
        if strings_Contains name (backupVersionV1 k) \<or> strings_Contains name (backupVersionV2 k)
        then (case ParseSnapshot k (path_Join [pfx, strings_TrimPrefix name pfx]) of
                Inl e \<Rightarrow> [] | Inr s \<Rightarrow> [s])
        else []) (concat pss))),
      replicate (length pss) NextPage,
      filter (\<lambda>name.
        (strings_Contains name (backupVersionV1 k) \<or> strings_Contains name (backupVersionV2 k))
        \<and> isl (ParseSnapshot k (path_Join [pfx, strings_TrimPrefix name pfx]))) (concat pss))"
proof -
  have c: "\<And>f :: string \<Rightarrow> Snapshot list.
      concat (map (\<lambda>names. concat (map f names)) pss) = concat (map f (concat pss))"
    by (induction pss) simp_all
  have f: "\<And>P :: string \<Rightarrow> bool.
      concat (map (filter P) pss) = filter P (concat pss)"
    by (induction pss) simp_all
  show ?thesis
    unfolding List_pages_ok List_blobs_fst List_blobs_snd c f ..
qed

lemma List_ok:
  assumes "pager_pages b (listPrefix a) = map Inr pss"
  shows "ABSSnapStore_List k a b =
     (Inr (sort_Sort (Less k) (concat (map (\<lambda>name.
        if strings_Contains name (backupVersionV1 k) \<or> strings_Contains name (backupVersionV2 k)
        then (case ParseSnapshot k (path_Join [listPrefix a, strings_TrimPrefix name (listPrefix a)]) of
                Inl e \<Rightarrow> [] | Inr s \<Rightarrow> [s])
        else []) (concat pss)))),
      NewListBlobsFlatPager (listPrefix a) # replicate (length pss) NextPage,
      filter (\<lambda>name.
        (strings_Contains name (backupVersionV1 k) \<or> strings_Contains name (backupVersionV2 k))
        \<and> isl (ParseSnapshot k (path_Join [listPrefix a, strings_TrimPrefix name (listPrefix a)])))
        (concat pss))"
  by (simp add: ABSSnapStore_List_def Let_def assms List_pages_all)

lemma List_error:
  assumes "fst (ABSSnapStore_List k a b) = Inl e"
  shows "\<exists>e'. Inl e' \<in> set (pager_pages b (listPrefix a)) \<and> e = ListFailed e'"
proof -
  obtain r calls warned where
    p: "List_pages k (listPrefix a) (pager_pages b (listPrefix a)) = (r, calls, warned)"
    by (cases "List_pages k (listPrefix a) (pager_pages b (listPrefix a))") auto
  with assms have "r = Inl e"
    by (cases r) (simp_all add: ABSSnapStore_List_def Let_def)
  with p List_pages_error show ?thesis by blast
qed


lemmas list_example_simps =
  pkg_example_def store_example_def backend_ok_def backend_list_def backend_dup_def

subsection \<open>Sorted, and tolerant of invalid names\<close>

text \<open>
  Claim C8. Let the order of the snapshots be asymmetric and its complement transitive,
  as the strict part of a total order is. The listing prefix of a store whose prefix
  ends in a segment without a slash is the joined rest of the prefix. When every page
  fetch succeeds, List returns without error; the snapshots it returns are, up to their
  order, those parsed from the listed names that carry a version tag, one for each such
  name that parses; the names that carry a tag and do not parse are the warnings and
  nothing else happens for them; and the returned list is non-decreasing in the order.
  List returns an error only when a page fetch returned one, and the error is that one.
\<close>

theorem List_sorted_and_tolerant:
  assumes asym: "\<forall>x y. Less k x y \<longrightarrow> \<not> Less k y x"
    and ntrans: "\<forall>x y z. \<not> Less k x y \<and> \<not> Less k y z \<longrightarrow> \<not> Less k x z"
  shows "(CHR ''/'' \<notin> set v \<longrightarrow> listPrefix (a\<lparr>prefix := p @ ''/'' @ v\<rparr>) = path_Join [p])
    \<and> (\<forall>pss. pager_pages b (listPrefix a) = map Inr pss \<longrightarrow>
         (\<exists>snaps. ABSSnapStore_List k a b =
              (Inr snaps,
               NewListBlobsFlatPager (listPrefix a) # replicate (length pss) NextPage,
               filter (\<lambda>name.
                 (strings_Contains name (backupVersionV1 k) \<or> strings_Contains name (backupVersionV2 k))
                 \<and> isl (ParseSnapshot k (path_Join [listPrefix a, strings_TrimPrefix name (listPrefix a)])))
                 (concat pss))
            \<and> mset snaps = mset (concat (map (\<lambda>name.
                 if strings_Contains name (backupVersionV1 k) \<or> strings_Contains name (backupVersionV2 k)
                 then (case ParseSnapshot k (path_Join [listPrefix a, strings_TrimPrefix name (listPrefix a)]) of
                         Inl e \<Rightarrow> [] | Inr s \<Rightarrow> [s])
                 else []) (concat pss)))
            \<and> sorted_wrt (\<lambda>x y. \<not> Less k y x) snaps))
    \<and> (\<forall>e. fst (ABSSnapStore_List k a b) = Inl e \<longrightarrow>
         (\<exists>e'. Inl e' \<in> set (pager_pages b (listPrefix a)) \<and> e = ListFailed e'))"
  apply (intro conjI impI allI)
  subgoal by (rule listPrefix_drops_last)
  subgoal for pss
    apply (subst List_ok, assumption)
    apply (intro exI conjI)
      apply (rule refl)
     apply (rule mset_sort_Sort)
    apply (rule sorted_sort_Sort[OF asym ntrans])
    done
  subgoal by (rule List_error)
  done


theorem List_sorted_and_tolerant_witness:
  "CHR ''/'' \<notin> set ''v2''
   \<and> listPrefix (store_example\<lparr>prefix := ''etcd'' @ ''/'' @ ''v2''\<rparr>) = ''etcd''
   \<and> pager_pages backend_list (listPrefix store_example) =
        map Inr [[''etcd/v2/Backup-1/Incr-11-20-2'', ''etcd/v2/Backup-1/junk'', ''etcd/other''],
                 [''etcd/v1/Backup-0/Full-0-10-1'']]
   \<and> ABSSnapStore_List pkg_example store_example backend_list =
        (Inr [\<lparr>Prefix = ''etcd/v1'', SnapDir = ''Backup-0'', SnapName = ''Full-0-10-1''\<rparr>,
              \<lparr>Prefix = ''etcd/v2'', SnapDir = ''Backup-1'', SnapName = ''Incr-11-20-2''\<rparr>],
         [NewListBlobsFlatPager ''etcd'', NextPage, NextPage],
         [''etcd/v2/Backup-1/junk''])
   \<and> sorted_wrt (\<lambda>x y. \<not> Less pkg_example y x)
        [\<lparr>Prefix = ''etcd/v1'', SnapDir = ''Backup-0'', SnapName = ''Full-0-10-1''\<rparr>,
         \<lparr>Prefix = ''etcd/v2'', SnapDir = ''Backup-1'', SnapName = ''Incr-11-20-2''\<rparr>]"
proof -
  have asym: "\<forall>x y. Less pkg_example x y \<longrightarrow> \<not> Less pkg_example y x"
    and ntrans: "\<forall>x y z. \<not> Less pkg_example x y \<and> \<not> Less pkg_example y z
                   \<longrightarrow> \<not> Less pkg_example x z"
    by (auto simp: pkg_example_def)
  have v: "CHR ''/'' \<notin> set ''v2''" by simp
  have pg: "pager_pages backend_list (listPrefix store_example) =
        map Inr [[''etcd/v2/Backup-1/Incr-11-20-2'', ''etcd/v2/Backup-1/junk'', ''etcd/other''],
                 [''etcd/v1/Backup-0/Full-0-10-1'']]"
    by (simp add: backend_list_def backend_ok_def)
  have ev: "ABSSnapStore_List pkg_example store_example backend_list =
        (Inr [\<lparr>Prefix = ''etcd/v1'', SnapDir = ''Backup-0'', SnapName = ''Full-0-10-1''\<rparr>,
              \<lparr>Prefix = ''etcd/v2'', SnapDir = ''Backup-1'', SnapName = ''Incr-11-20-2''\<rparr>],
         [NewListBlobsFlatPager ''etcd'', NextPage, NextPage],
         [''etcd/v2/Backup-1/junk''])"
    by code_simp
  note t = List_sorted_and_tolerant[OF asym ntrans, where v = "''v2''" and a = store_example
             and p = "''etcd''" and b = backend_list]
  from t[THEN conjunct1, rule_format, OF v]
  have r1: "listPrefix (store_example\<lparr>prefix := ''etcd'' @ ''/'' @ ''v2''\<rparr>) = ''etcd''"
    by (simp add: path_Join_def path_Clean_def)
  from t[THEN conjunct2, THEN conjunct1, rule_format, OF pg] ev
  have r2: "sorted_wrt (\<lambda>x y. \<not> Less pkg_example y x)
        [\<lparr>Prefix = ''etcd/v1'', SnapDir = ''Backup-0'', SnapName = ''Full-0-10-1''\<rparr>,
         \<lparr>Prefix = ''etcd/v2'', SnapDir = ''Backup-1'', SnapName = ''Incr-11-20-2''\<rparr>]"
    by auto
  from v r1 pg ev r2 show ?thesis by blast
qed

subsection \<open>Pages\<close>

text \<open>
  Claim C9, as stated, fails where the backend lists a name twice: List returns the
  snapshot twice. Here the two pages of the listing hold the same name.
\<close>

theorem List_returns_duplicates:
  "ABSSnapStore_List pkg_example store_example backend_dup =
     (Inr [\<lparr>Prefix = ''etcd/v2'', SnapDir = ''Backup-1'', SnapName = ''Full-0-10-1''\<rparr>,
           \<lparr>Prefix = ''etcd/v2'', SnapDir = ''Backup-1'', SnapName = ''Full-0-10-1''\<rparr>],
      [NewListBlobsFlatPager ''etcd'', NextPage, NextPage], [])"
  by code_simp


text \<open>
  Claim C9, amended. When the pager of the listing prefix has \<open>k\<close> pages and every fetch
  succeeds, List makes exactly \<open>k\<close> \<open>NextPage\<close> calls, one after the other, after creating
  the pager, and returns without error; the snapshots it returns are, up to their order
  and with their multiplicities, those parsed from the names of all pages that carry a
  version tag: a name listed twice is returned twice.
\<close>

theorem List_pagination:
  assumes "pager_pages b (listPrefix a) = map Inr pss"
  shows "\<exists>snaps warned. ABSSnapStore_List k a b =
              (Inr snaps,
               NewListBlobsFlatPager (listPrefix a) # replicate (length pss) NextPage, warned)
            \<and> mset snaps = mset (concat (map (\<lambda>name.
                 if strings_Contains name (backupVersionV1 k) \<or> strings_Contains name (backupVersionV2 k)
                 then (case ParseSnapshot k (path_Join [listPrefix a, strings_TrimPrefix name (listPrefix a)]) of
                         Inl e \<Rightarrow> [] | Inr s \<Rightarrow> [s])
                 else []) (concat pss)))"
  apply (subst List_ok[OF assms])
  apply (intro exI conjI)
   apply (rule refl)
  apply (rule mset_sort_Sort)
  done


theorem List_pagination_witness:
  "pager_pages backend_dup (listPrefix store_example) =
     map Inr [[''etcd/v2/Backup-1/Full-0-10-1''], [''etcd/v2/Backup-1/Full-0-10-1'']]
   \<and> fst (snd (ABSSnapStore_List pkg_example store_example backend_dup)) =
       NewListBlobsFlatPager (listPrefix store_example) # replicate 2 NextPage"
proof -
  have pg: "pager_pages backend_dup (listPrefix store_example) =
     map Inr [[''etcd/v2/Backup-1/Full-0-10-1''], [''etcd/v2/Backup-1/Full-0-10-1'']]"
    by (simp add: backend_dup_def backend_ok_def)
  from List_pagination[OF pg, of pkg_example] obtain snaps warned where
    "ABSSnapStore_List pkg_example store_example backend_dup =
       (Inr snaps,
        NewListBlobsFlatPager (listPrefix store_example)
          # replicate (length [[''etcd/v2/Backup-1/Full-0-10-1''], [''etcd/v2/Backup-1/Full-0-10-1'']])
              NextPage,
        warned)"
    by blast
  then have "fst (snd (ABSSnapStore_List pkg_example store_example backend_dup)) =
       NewListBlobsFlatPager (listPrefix store_example) # replicate 2 NextPage"
    by (simp add: numeral_2_eq_2)
  with pg show ?thesis by simp
qed

section \<open>The object that Save, Fetch and Delete address\<close>

















end
